theory Spec2Isabelle
  imports Complex_Main "HOL-Library.Product_Lexorder" "HOL-Library.Log_Nat"
begin

section \<open>Data model\<close>

text \<open>
  A table cell as pandas holds it. \<open>Null\<close> stands for every missing marker (NaN, None,
  NaT). A float is a double: \<open>Num x\<close> is the finite double of value \<open>x\<close> (\<open>Num 0\<close> is
  \<open>+0.0\<close>), \<open>NegZero\<close> is \<open>-0.0\<close> and \<open>Inf s\<close> is the infinity of sign \<open>s\<close>
  (\<open>True\<close> for \<open>+inf\<close>). \<open>Stamp t\<close> is a timezone-free timestamp, \<open>t\<close> nanoseconds
  after the epoch, and \<open>Txt s\<close> is any other text.
\<close>

datatype cell = Null | Num real | NegZero | Inf bool | Txt string | Stamp int

text \<open>
  A row gives the cell under each column name; a frame is the ordered list of its column
  names and its rows (a \<open>DataFrame\<close> with the default integer index). A name occurs
  once among the columns that \<open>read_csv\<close> reports, since it renames a repeated one.
\<close>

type_synonym row = "string \<Rightarrow> cell"

record frame =
  columns :: "string list"
  rows :: "row list"

text \<open>A frame whose index holds timestamps (after \<open>set_index("date")\<close>): label and row.\<close>

record indexed =
  icolumns :: "string list"
  entries :: "(int \<times> row) list"

text \<open>
  What \<open>read_csv\<close> finds in a field of a raw file: nothing, a number (\<open>Number x\<close> for
  the double it reads, \<open>MinusZero\<close> for \<open>-0.0\<close>, \<open>Infinity s\<close> for \<open>inf\<close> and
  \<open>-inf\<close>), or text. A raw file is the header and the data rows that the parser makes
  of it.
\<close>

datatype csv_value = Empty | Number real | MinusZero | Infinity bool | Text string

datatype csv_file = Csv "string list" "(string \<Rightarrow> csv_value) list"

datatype error = IOError | ValueError

text \<open>What the scripts print, one constructor for each message.\<close>

datatype event =
    CannotRead string
  | EmptyData string
  | MissingColumns string "string list" "string list"
  | DateParseError string
  | NoRowsLeft string
  | DroppedRows string nat
  | Processed string nat
  | SkipSave string
  | Saved string
  | SaveFailed string
  | NoRawFiles
  | FoundRaw nat
  | Processing string
  | AllProcessedSaved
  | MissingRequired
  | NotEnoughData
  | SkippingForecast string
  | ForecastSaved string
  | ForecastFailed string

text \<open>
  The state the scripts act on: the directory above the scripts, the paths that
  \<open>glob\<close> finds in the raw directory, the raw files (\<open>None\<close>: the path cannot be read
  or parsed), the files written so far with the frame each holds, the paths that cannot
  be written, and the messages printed so far.
\<close>

record world =
  root_dir :: string
  raw_files :: "string list"
  raw :: "string \<Rightarrow> csv_file option"
  written :: "string \<Rightarrow> frame option"
  unwritable :: "string \<Rightarrow> bool"
  log :: "event list"

text \<open>
  The library calls whose results depend on text formats. \<open>to_datetime_utc col\<close> is
  \<open>pd.to_datetime(col, errors="coerce", utc=True)\<close> followed by \<open>tz_convert(None)\<close>:
  \<open>None\<close> when the call raises, otherwise the timestamp of each position that parses.
  \<open>to_datetime_plain\<close> is the call without \<open>utc\<close>. \<open>str_to_float\<close> is the float
  that \<open>to_numeric\<close> reads from a piece of text, or a cell that is not a float when
  the text is not a number. \<open>arima y order steps\<close> is the fit of
  \<open>ARIMA(y, order)\<close> followed by \<open>get_forecast(steps)\<close>: \<open>None\<close> when either raises,
  otherwise one entry for each forecast step with its date, mean and interval bounds.
\<close>

record lib =
  to_datetime_utc :: "cell list \<Rightarrow> (nat \<Rightarrow> int option) option"
  to_datetime_plain :: "cell list \<Rightarrow> nat \<Rightarrow> int option"
  str_to_float :: "string \<Rightarrow> cell"
  arima :: "(int \<times> cell) list \<Rightarrow> nat \<times> nat \<times> nat \<Rightarrow> nat
              \<Rightarrow> (int \<times> cell \<times> cell \<times> cell) list option"

section \<open>Paths and strings\<close>

text \<open>
  \<open>str.lower\<close> on the ASCII letters, which is all that a comparison with the ASCII
  candidate names can depend on.
\<close>

definition lower_char :: "char \<Rightarrow> char" where
  "lower_char c =
     (let n = (of_char c :: nat) in if 65 \<le> n \<and> n \<le> 90 then char_of (n + 32) else c)"

definition lower :: "string \<Rightarrow> string" where
  "lower s = map lower_char s"

text \<open>\<open>os.path.basename\<close>: what follows the last slash.\<close>

fun basename_acc :: "string \<Rightarrow> string \<Rightarrow> string" where
  "basename_acc acc [] = acc"
| "basename_acc acc (c # cs) =
     (if c = CHR ''/'' then basename_acc [] cs else basename_acc (acc @ [c]) cs)"

definition basename :: "string \<Rightarrow> string" where
  "basename p = basename_acc [] p"

text \<open>
  \<open>os.path.splitext(name)[0]\<close> for a name without a slash: cut at the last dot, unless
  only dots come before it.
\<close>

definition splitext_root :: "string \<Rightarrow> string" where
  "splitext_root name =
     (let stem = rev (tl (dropWhile (\<lambda>c. c \<noteq> CHR ''.'') (rev name)))
      in if CHR ''.'' \<in> set name \<and> (\<exists>c \<in> set stem. c \<noteq> CHR ''.'') then stem else name)"

definition os_path_join :: "string \<Rightarrow> string \<Rightarrow> string" where
  "os_path_join a b =
     (if b \<noteq> [] \<and> hd b = CHR ''/'' then b
      else if a = [] \<or> last a = CHR ''/'' then a @ b
      else a @ ''/'' @ b)"

definition RAW_PATH :: string where
  "RAW_PATH = os_path_join ''data'' ''raw''"

definition PROCESSED_PATH :: string where
  "PROCESSED_PATH = os_path_join ''data'' ''processed''"

definition infer_symbol_from_filename :: "string \<Rightarrow> string" where
  "infer_symbol_from_filename file_path = splitext_root (basename file_path)"

section \<open>Frame operations\<close>

definition get_col :: "frame \<Rightarrow> string \<Rightarrow> cell list" where
  "get_col df c = map (\<lambda>r. r c) (rows df)"

text \<open>\<open>df[c] = values\<close>: an existing column keeps its place, a new one goes last.\<close>

definition with_column :: "string list \<Rightarrow> string \<Rightarrow> string list" where
  "with_column cs c = (if c \<in> set cs then cs else cs @ [c])"

definition set_col :: "frame \<Rightarrow> string \<Rightarrow> cell list \<Rightarrow> frame" where
  "set_col df c vs =
     \<lparr>columns = with_column (columns df) c,
      rows = map (\<lambda>(r, v). r(c := v)) (zip (rows df) vs)\<rparr>"

text \<open>\<open>df.rename(columns={old: new})\<close>.\<close>

definition rename :: "frame \<Rightarrow> string \<Rightarrow> string \<Rightarrow> frame" where
  "rename df old new =
     \<lparr>columns = map (\<lambda>c. if c = old then new else c) (columns df),
      rows = map (\<lambda>r. (r(old := Null))(new := r old)) (rows df)\<rparr>"

definition empty_frame :: "frame \<Rightarrow> bool" where
  "empty_frame df \<longleftrightarrow> columns df = [] \<or> rows df = []"

section \<open>Column normalisation\<close>

definition validate_and_fix_columns :: "frame \<Rightarrow> string \<Rightarrow> frame" where
  "validate_and_fix_columns df file_path =
     (let possible_date_cols = filter (\<lambda>c. lower c \<in> {''date'', ''datetime''}) (columns df);
          df1 = (if possible_date_cols \<noteq> [] \<and> ''date'' \<notin> set (columns df)
                 then rename df (hd possible_date_cols) ''date'' else df);
          possible_price_cols =
            filter (\<lambda>c. lower c \<in> {''price'', ''close'', ''adj close''}) (columns df1);
          df2 = (if possible_price_cols \<noteq> [] \<and> ''price'' \<notin> set (columns df1)
                 then rename df1 (hd possible_price_cols) ''price'' else df1)
      in if ''symbol'' \<notin> set (columns df2)
         then set_col df2 ''symbol''
                (replicate (length (rows df2)) (Txt (infer_symbol_from_filename file_path)))
         else df2)"

section \<open>Series alignment\<close>

text \<open>
  \<open>read_csv\<close>: an exception for a path that cannot be read or parsed, otherwise the
  frame of the file, with a missing cell for an empty field.
\<close>

primrec of_csv :: "csv_value \<Rightarrow> cell" where
  "of_csv Empty = Null"
| "of_csv (Number x) = Num x"
| "of_csv MinusZero = NegZero"
| "of_csv (Infinity s) = Inf s"
| "of_csv (Text s) = Txt s"

definition read_csv :: "world \<Rightarrow> string \<Rightarrow> error + frame" where
  "read_csv w file_path =
     (case raw w file_path of
        None \<Rightarrow> Inl IOError
      | Some (Csv header body) \<Rightarrow>
          Inr \<lparr>columns = header,
               rows = map (\<lambda>r c. if c \<in> set header then of_csv (r c) else Null) body\<rparr>)"

definition say :: "world \<Rightarrow> event \<Rightarrow> world" where
  "say w e = w\<lparr>log := log w @ [e]\<rparr>"

text \<open>
  The column a \<open>to_datetime\<close> call returns: a missing entry stays missing, an entry that
  does not parse becomes missing (\<open>errors="coerce"\<close>).
\<close>

definition stamp_cells :: "(nat \<Rightarrow> int option) \<Rightarrow> cell list \<Rightarrow> cell list" where
  "stamp_cells f col =
     map (\<lambda>i. if col ! i = Null then Null
              else (case f i of None \<Rightarrow> Null | Some t \<Rightarrow> Stamp t))
         [0 ..< length col]"

definition dropna :: "frame \<Rightarrow> string list \<Rightarrow> frame" where
  "dropna df cols = df\<lparr>rows := filter (\<lambda>r. \<forall>c \<in> set cols. r c \<noteq> Null) (rows df)\<rparr>"

text \<open>\<open>sort_values\<close> on a timestamp column: ascending, missing entries last.\<close>

definition stamp_key :: "cell \<Rightarrow> nat \<times> int" where
  "stamp_key c = (case c of Stamp t \<Rightarrow> (0, t) | _ \<Rightarrow> (1, 0))"

definition sort_values :: "frame \<Rightarrow> string \<Rightarrow> frame" where
  "sort_values df c = df\<lparr>rows := sort_key (\<lambda>r. stamp_key (r c)) (rows df)\<rparr>"

text \<open>
  \<open>set_index\<close> moves a timestamp column into the index. Both callers drop the rows
  with a missing date first, so every row has a label.
\<close>

definition set_index :: "frame \<Rightarrow> string \<Rightarrow> indexed" where
  "set_index df c =
     \<lparr>icolumns = filter (\<lambda>x. x \<noteq> c) (columns df),
      entries = List.map_filter
                  (\<lambda>r. case r c of Stamp t \<Rightarrow> Some (t, r(c := Null)) | _ \<Rightarrow> None) (rows df)\<rparr>"

definition one_day :: int where
  "one_day = 86400000000000"

text \<open>\<open>date_range(start, end, freq="D")\<close>: from \<open>start\<close> in steps of 24 hours, up to \<open>stop\<close>.\<close>

definition date_range :: "int \<Rightarrow> int \<Rightarrow> int list" where
  "date_range start stop =
     map (\<lambda>k. start + int k * one_day) [0 ..< nat ((stop - start) div one_day + 1)]"

text \<open>
  \<open>asfreq("D")\<close>: an empty frame is returned as it is; otherwise the frame is
  reindexed on the daily range from the least to the greatest label, which raises
  \<open>ValueError\<close> when a label is repeated, and gives an empty row to a day without one.
\<close>

definition asfreq_D :: "indexed \<Rightarrow> error + indexed" where
  "asfreq_D ix =
     (let labels = map fst (entries ix)
      in if labels = [] then Inr ix
         else if \<not> distinct labels then Inl ValueError
         else Inr (ix\<lparr>entries :=
                 map (\<lambda>t. (t, case map_of (entries ix) t of Some r \<Rightarrow> r | None \<Rightarrow> (\<lambda>_. Null)))
                     (date_range (Min (set labels)) (Max (set labels)))\<rparr>))"

definition iget :: "indexed \<Rightarrow> string \<Rightarrow> cell list" where
  "iget ix c = map (\<lambda>(t, r). r c) (entries ix)"

definition iset :: "indexed \<Rightarrow> string \<Rightarrow> cell list \<Rightarrow> indexed" where
  "iset ix c vs =
     \<lparr>icolumns = with_column (icolumns ix) c,
      entries = map (\<lambda>((t, r), v). (t, r(c := v))) (zip (entries ix) vs)\<rparr>"

text \<open>\<open>reset_index\<close> puts the index back as the first column, if that name is free.\<close>

definition reset_index :: "indexed \<Rightarrow> string \<Rightarrow> error + frame" where
  "reset_index ix name =
     (if name \<in> set (icolumns ix) then Inl ValueError
      else Inr \<lparr>columns = name # icolumns ix,
                rows = map (\<lambda>(t, r). r(name := Stamp t)) (entries ix)\<rparr>)"

fun ffill_from :: "cell \<Rightarrow> cell list \<Rightarrow> cell list" where
  "ffill_from prev [] = []"
| "ffill_from prev (c # cs) =
     (if c = Null then prev # ffill_from prev cs else c # ffill_from c cs)"

definition ffill :: "cell list \<Rightarrow> cell list" where
  "ffill cs = ffill_from Null cs"

definition bfill :: "cell list \<Rightarrow> cell list" where
  "bfill cs = rev (ffill (rev cs))"

definition is_float :: "cell \<Rightarrow> bool" where
  "is_float c = (case c of Num x \<Rightarrow> True | NegZero \<Rightarrow> True | Inf s \<Rightarrow> True | _ \<Rightarrow> False)"

text \<open>
  \<open>to_numeric(errors="coerce")\<close> on one entry: a float stays, text is read as a float
  or becomes missing. A price column read from a file holds no timestamp.
\<close>

definition to_numeric :: "lib \<Rightarrow> cell \<Rightarrow> cell" where
  "to_numeric L c =
     (case c of
        Txt s \<Rightarrow> (if is_float (str_to_float L s) then str_to_float L s else Null)
      | Stamp t \<Rightarrow> Null
      | _ \<Rightarrow> c)"

section \<open>Double arithmetic\<close>

text \<open>
  The result of an operation on doubles is the exact result rounded to the nearest
  double, a tie going to the even significand. \<open>ilog2 x\<close> is the exponent of a positive
  \<open>x\<close>, the integer \<open>e\<close> with \<open>2 ^ e \<le> x < 2 ^ (e + 1)\<close>. A double has 53 significant
  bits, and no exponent below \<open>-1022\<close>: smaller values are rounded to multiples of
  \<open>2 ^ -1074\<close>, possibly to a zero that keeps the sign. A rounded value
  \<open>m * 2 ^ e\<close> of magnitude \<open>2 ^ 1024\<close> or more, which is one with more than 1024
  bits before the binary point, is an infinity.
\<close>

definition pow2 :: "int \<Rightarrow> real" where
  "pow2 e = (if 0 \<le> e then 2 ^ nat e else 1 / 2 ^ nat (- e))"

definition ilog2 :: "real \<Rightarrow> int" where
  "ilog2 x = (if 1 \<le> x then bitlen \<lfloor>x\<rfloor> - 1 else - bitlen (\<lceil>1 / x\<rceil> - 1))"

definition round_half_even :: "real \<Rightarrow> int" where
  "round_half_even r =
     (let f = \<lfloor>r\<rfloor>; d = r - of_int f
      in if d < 1 / 2 then f else if 1 / 2 < d then f + 1 else if even f then f else f + 1)"

definition round64 :: "real \<Rightarrow> cell" where
  "round64 x =
     (if x = 0 then Num 0
      else
        let e = max (ilog2 \<bar>x\<bar>) (- 1022) - 52;
            m = round_half_even (x / pow2 e)
        in if m = 0 then (if x < 0 then NegZero else Num 0)
           else if 1024 < e + bitlen \<bar>m\<bar> then Inf (0 < x)
           else Num (of_int m * pow2 e))"

text \<open>
  The parts of a float: whether it is negative, a zero, an infinity, and its value when
  it is finite.
\<close>

definition negative :: "cell \<Rightarrow> bool" where
  "negative c = (case c of Num x \<Rightarrow> x < 0 | NegZero \<Rightarrow> True | Inf s \<Rightarrow> \<not> s | _ \<Rightarrow> False)"

definition is_zero :: "cell \<Rightarrow> bool" where
  "is_zero c \<longleftrightarrow> c = Num 0 \<or> c = NegZero"

definition is_inf :: "cell \<Rightarrow> bool" where
  "is_inf c = (case c of Inf s \<Rightarrow> True | _ \<Rightarrow> False)"

definition value_of :: "cell \<Rightarrow> real" where
  "value_of c = (case c of Num x \<Rightarrow> x | _ \<Rightarrow> 0)"

definition signed_zero :: "bool \<Rightarrow> cell" where
  "signed_zero neg = (if neg then NegZero else Num 0)"

definition signed_inf :: "bool \<Rightarrow> cell" where
  "signed_inf neg = Inf (\<not> neg)"

text \<open>
  Division, subtraction and multiplication of a float column, entry by entry. An
  operation with a missing value is missing; so are \<open>0 / 0\<close>, \<open>inf / inf\<close>,
  \<open>inf - inf\<close> and \<open>0 * inf\<close>. A finite non-zero value divided by a zero is an
  infinity, and the sign of a quotient or a product is the product of the signs, also
  for zeros and infinities. The difference of two equal finite values is \<open>+0.0\<close>, and
  so is that of two zeros unless it is \<open>-0.0 - +0.0\<close>. The columns these are applied to
  hold floats and missing values only.
\<close>

definition fdiv :: "cell \<Rightarrow> cell \<Rightarrow> cell" where
  "fdiv a b =
     (if \<not> is_float a \<or> \<not> is_float b then Null
      else
        let neg = (negative a \<noteq> negative b)
        in if is_inf a then (if is_inf b then Null else signed_inf neg)
           else if is_inf b then signed_zero neg
           else if is_zero b then (if is_zero a then Null else signed_inf neg)
           else if is_zero a then signed_zero neg
           else round64 (value_of a / value_of b))"

definition fsub :: "cell \<Rightarrow> cell \<Rightarrow> cell" where
  "fsub a b =
     (if \<not> is_float a \<or> \<not> is_float b then Null
      else if is_inf a then (if is_inf b \<and> negative a = negative b then Null else a)
      else if is_inf b then signed_inf (\<not> negative b)
      else if is_zero a \<and> is_zero b then (if a = NegZero \<and> b = Num 0 then NegZero else Num 0)
      else if value_of a = value_of b then Num 0
      else round64 (value_of a - value_of b))"

definition fmul :: "cell \<Rightarrow> cell \<Rightarrow> cell" where
  "fmul a b =
     (if \<not> is_float a \<or> \<not> is_float b then Null
      else
        let neg = (negative a \<noteq> negative b)
        in if is_inf a \<or> is_inf b then (if is_zero a \<or> is_zero b then Null else signed_inf neg)
           else if is_zero a \<or> is_zero b then signed_zero neg
           else round64 (value_of a * value_of b))"

section \<open>Change features\<close>

text \<open>
  \<open>pct_change(periods)\<close>: the column divided by itself shifted down, minus one.
  Versions of pandas that forward-fill the column first give the same result here: the
  price column it is applied to is filled already.
\<close>

definition pct_change :: "nat \<Rightarrow> cell list \<Rightarrow> cell list" where
  "pct_change periods xs =
     map (\<lambda>i. if i < periods then Null else fsub (fdiv (xs ! i) (xs ! (i - periods))) (Num 1))
         [0 ..< length xs]"

definition times :: "cell list \<Rightarrow> real \<Rightarrow> cell list" where
  "times xs k = map (\<lambda>x. fmul x (Num k)) xs"

section \<open>Normalisation of one file\<close>

text \<open>
  Lines 47 to 53 of \<open>process_file\<close>: the conversion of the date column, and the
  fallback with its message when the conversion raises.
\<close>

definition convert_dates :: "lib \<Rightarrow> world \<Rightarrow> string \<Rightarrow> frame \<Rightarrow> frame \<times> world" where
  "convert_dates L w file_path df =
     (let col = get_col df ''date''
      in case to_datetime_utc L col of
           Some f \<Rightarrow> (set_col df ''date'' (stamp_cells f col), w)
         | None \<Rightarrow> (set_col df ''date'' (stamp_cells (to_datetime_plain L col) col),
                    say w (DateParseError file_path)))"

text \<open>Line 57: the rows with a date and a price, in date order.\<close>

definition clean :: "frame \<Rightarrow> frame" where
  "clean df = sort_values (dropna df [''date'', ''price'']) ''date''"

text \<open>Lines 67 to 69: filling the gaps of the symbol and the price.\<close>

definition fill_gaps :: "lib \<Rightarrow> indexed \<Rightarrow> indexed" where
  "fill_gaps L ix =
     (let ix1 = iset ix ''symbol'' (bfill (ffill (iget ix ''symbol'')));
          ix2 = iset ix1 ''price'' (map (to_numeric L) (iget ix1 ''price''))
      in iset ix2 ''price'' (bfill (ffill (iget ix2 ''price''))))"

text \<open>Lines 72 to 74: the three change columns.\<close>

definition change_columns :: "indexed \<Rightarrow> indexed" where
  "change_columns ix =
     (let ix1 = iset ix ''Daily_Change_%'' (times (pct_change 1 (iget ix ''price'')) 100);
          ix2 = iset ix1 ''Weekly_Change_7d_%'' (times (pct_change 7 (iget ix1 ''price'')) 100)
      in iset ix2 ''Monthly_Change_30d_%'' (times (pct_change 30 (iget ix2 ''price'')) 100))"

text \<open>
  The outcome of a call that acts on the world: \<open>Inl (e, w)\<close> is the exception \<open>e\<close>
  leaving the call in the world \<open>w\<close>, \<open>Inr (x, w)\<close> the return of \<open>x\<close>.
\<close>

type_synonym 'a outcome = "(error \<times> world) + ('a \<times> world)"

text \<open>\<open>process_file\<close>; \<open>Inr (None, w)\<close> is the return of \<open>None\<close>.\<close>

definition process_file :: "lib \<Rightarrow> world \<Rightarrow> string \<Rightarrow> frame option outcome" where
  "process_file L w file_path =
     (case read_csv w file_path of
        Inl e \<Rightarrow> Inr (None, say w (CannotRead file_path))
      | Inr df0 \<Rightarrow>
          if empty_frame df0 then Inr (None, say w (EmptyData file_path))
          else
            let df1 = validate_and_fix_columns df0 file_path;
                missing = filter (\<lambda>c. c \<notin> set (columns df1)) [''date'', ''symbol'', ''price'']
            in if missing \<noteq> []
               then Inr (None, say w (MissingColumns file_path missing (columns df1)))
               else
                 let (df2, w1) = convert_dates L w file_path df1;
                     n_before = length (rows df2);
                     df3 = clean df2;
                     n_after = length (rows df3)
                 in if n_after = 0 then Inr (None, say w1 (NoRowsLeft file_path))
                    else
                      let w2 = (if n_after < n_before
                                then say w1 (DroppedRows file_path (n_before - n_after)) else w1)
                      in (case asfreq_D (set_index df3 ''date'') of
                            Inl e \<Rightarrow> Inl (e, w2)
                          | Inr ix \<Rightarrow>
                              (case reset_index (change_columns (fill_gaps L ix)) ''date'' of
                                 Inl e \<Rightarrow> Inl (e, w2)
                               | Inr df \<Rightarrow>
                                   Inr (Some df,
                                        say w2 (Processed file_path (length (rows df)))))))"

text \<open>
  The rows of a raw file that \<open>process_file\<close> keeps after cleaning, each with its
  timestamp: the rows that the daily reindexing starts from.
\<close>

definition surviving :: "lib \<Rightarrow> world \<Rightarrow> string \<Rightarrow> (int \<times> row) list" where
  "surviving L w file_path =
     (case read_csv w file_path of
        Inl e \<Rightarrow> []
      | Inr df0 \<Rightarrow>
          entries (set_index
            (clean (fst (convert_dates L w file_path (validate_and_fix_columns df0 file_path))))
            ''date''))"

definition save_processed :: "world \<Rightarrow> frame option \<Rightarrow> string \<Rightarrow> world" where
  "save_processed w df filename =
     (case df of
        None \<Rightarrow> say w (SkipSave filename)
      | Some d \<Rightarrow>
          if empty_frame d then say w (SkipSave filename)
          else
            let out_path = os_path_join PROCESSED_PATH filename
            in if unwritable w out_path then say w (SaveFailed filename)
               else say (w\<lparr>written := (written w)(out_path \<mapsto> d)\<rparr>) (Saved out_path))"

text \<open>
  The loop of \<open>main\<close> over the files found. Nothing catches an exception of
  \<open>process_file\<close>: it leaves the loop, and \<open>main\<close>, in the world reached so far, with
  the files that were saved before it.
\<close>

fun process_all :: "lib \<Rightarrow> world \<Rightarrow> string list \<Rightarrow> (error \<times> world) + world" where
  "process_all L w [] = Inr w"
| "process_all L w (f # fs) =
     (case process_file L (say w (Processing f)) f of
        Inl x \<Rightarrow> Inl x
      | Inr (df, w1) \<Rightarrow> process_all L (save_processed w1 df (basename f)) fs)"

definition main :: "lib \<Rightarrow> world \<Rightarrow> (error \<times> world) + world" where
  "main L w =
     (let files = raw_files w
      in if files = [] then Inr (say w NoRawFiles)
         else (case process_all L (say w (FoundRaw (length files))) files of
                 Inl x \<Rightarrow> Inl x
               | Inr w1 \<Rightarrow> Inr (say w1 AllProcessedSaved)))"

section \<open>Forecast of one symbol\<close>

definition FORECAST_DIR :: "world \<Rightarrow> string" where
  "FORECAST_DIR w = os_path_join (os_path_join (root_dir w) ''data'') ''forecasted''"

definition FORECAST_STEPS :: nat where
  "FORECAST_STEPS = 30"

definition ARIMA_ORDER :: "nat \<times> nat \<times> nat" where
  "ARIMA_ORDER = (1, 1, 1)"

text \<open>
  Lines 24 to 30 of \<open>prepare_series\<close>: the frame on its daily index with the price
  filled. The date conversion is not guarded here, so an exception in it leaves the
  function.
\<close>

definition align_series :: "lib \<Rightarrow> frame \<Rightarrow> error + indexed" where
  "align_series L df =
     (case to_datetime_utc L (get_col df ''date'') of
        None \<Rightarrow> Inl ValueError
      | Some f \<Rightarrow>
          let s1 = set_col df ''date'' (stamp_cells f (get_col df ''date''));
              s2 = sort_values (dropna s1 [''date'', ''price'']) ''date''
          in (case asfreq_D (set_index s2 ''date'') of
                Inl e \<Rightarrow> Inl e
              | Inr ix \<Rightarrow>
                  Inr (iset ix ''price''
                         (bfill (ffill (map (to_numeric L) (iget ix ''price'')))))))"

text \<open>\<open>prepare_series\<close>: the price series with its daily index, or \<open>None\<close>.\<close>

definition prepare_series ::
  "lib \<Rightarrow> world \<Rightarrow> frame \<Rightarrow> (int \<times> cell) list option outcome" where
  "prepare_series L w df =
     (if \<not> {''date'', ''price''} \<subseteq> set (columns df) then Inr (None, say w MissingRequired)
      else
        (case align_series L df of
           Inl e \<Rightarrow> Inl (e, w)
         | Inr s \<Rightarrow>
             if length (filter (\<lambda>c. c \<noteq> Null) (iget s ''price'')) < 20
             then Inr (None, say w NotEnoughData)
             else Inr (Some (zip (map fst (entries s)) (iget s ''price'')), w)))"

definition forecast_row :: "string \<Rightarrow> int \<times> cell \<times> cell \<times> cell \<Rightarrow> row" where
  "forecast_row symbol e =
     (case e of (d, m, lo, hi) \<Rightarrow>
        (\<lambda>_. Null)(''date'' := Stamp d, ''symbol'' := Txt symbol, ''forecast'' := m,
                   ''ci_lower'' := lo, ''ci_upper'' := hi))"

definition forecast_one_symbol ::
  "lib \<Rightarrow> world \<Rightarrow> string \<Rightarrow> frame \<Rightarrow> frame option outcome" where
  "forecast_one_symbol L w symbol df_symbol =
     (case prepare_series L w df_symbol of
        Inl x \<Rightarrow> Inl x
      | Inr (None, w1) \<Rightarrow> Inr (None, say w1 (SkippingForecast symbol))
      | Inr (Some y, w1) \<Rightarrow>
          (case arima L y ARIMA_ORDER FORECAST_STEPS of
             None \<Rightarrow> Inr (None, say w1 (ForecastFailed symbol))
           | Some fc \<Rightarrow>
               let out = \<lparr>columns = [''date'', ''symbol'', ''forecast'', ''ci_lower'', ''ci_upper''],
                          rows = map (forecast_row symbol) fc\<rparr>;
                   out_path = os_path_join (FORECAST_DIR w1) (''forecast_'' @ symbol @ ''.csv'')
               in if unwritable w1 out_path then Inr (None, say w1 (ForecastFailed symbol))
                  else Inr (Some out,
                            say (w1\<lparr>written := (written w1)(out_path \<mapsto> out)\<rparr>)
                                (ForecastSaved out_path))))"

section \<open>Definitions that follow the words of the specification\<close>

text \<open>
  Alias resolution as the specification words it: a case-insensitive match against the
  candidate set, the first match renamed to the target only if no column already has
  the target's name.
\<close>

definition resolve_alias :: "string set \<Rightarrow> string \<Rightarrow> string list \<Rightarrow> string list" where
  "resolve_alias candidates target cols =
     (if target \<in> set cols then cols
      else (case find (\<lambda>c. lower c \<in> candidates) cols of
              None \<Rightarrow> cols
            | Some m \<Rightarrow> map (\<lambda>c. if c = m then target else c) cols))"

text \<open>
  The columns of a raw table after the resolution of the date and the price and the
  symbol rule: a \<open>symbol\<close> column is added last when there is none.
\<close>

definition normalised_columns :: "string list \<Rightarrow> string list" where
  "normalised_columns header =
     (let cs = resolve_alias {''price'', ''close'', ''adj close''} ''price''
                 (resolve_alias {''date'', ''datetime''} ''date'' header)
      in if ''symbol'' \<in> set cs then cs else cs @ [''symbol''])"

text \<open>
  The change of a price \<open>p\<close> over the price \<open>q\<close> of \<open>lag\<close> days before as the
  specification words it, \<open>(p - q) / q * 100\<close>, in doubles.
\<close>

definition spec_change :: "cell \<Rightarrow> cell \<Rightarrow> cell" where
  "spec_change p q = fmul (fdiv (fsub p q) q) (Num 100)"

text \<open>
  The comparison \<open>a \<le> b\<close> of two floats; it is false when one of them is missing
  (NaN).
\<close>

definition fle :: "cell \<Rightarrow> cell \<Rightarrow> bool" where
  "fle a b \<longleftrightarrow>
     is_float a \<and> is_float b \<and>
     (if is_inf a then negative a \<or> (is_inf b \<and> \<not> negative b)
      else if is_inf b then \<not> negative b
      else value_of a \<le> value_of b)"


section \<open>Observations of a run and sample inputs\<close>

text \<open>
  What can be observed of a run: the exception that leaves it, whether it returned
  \<open>None\<close>, a column of the frame it returned, the messages it printed, the world it
  left, and the columns of the file found at a path when it ends, with or without an
  exception.
\<close>

definition raised :: "(error \<times> world) + 'a \<Rightarrow> error option" where
  "raised r = (case r of Inl (e, w) \<Rightarrow> Some e | Inr x \<Rightarrow> None)"

definition returned_none :: "'a option outcome \<Rightarrow> bool" where
  "returned_none r = (case r of Inr (None, w) \<Rightarrow> True | _ \<Rightarrow> False)"

definition result_column :: "frame option outcome \<Rightarrow> string \<Rightarrow> cell list option" where
  "result_column r c = (case r of Inr (Some df, w) \<Rightarrow> Some (get_col df c) | _ \<Rightarrow> None)"

definition printed :: "'a outcome \<Rightarrow> event list" where
  "printed r = (case r of Inl (e, w) \<Rightarrow> log w | Inr (x, w) \<Rightarrow> log w)"

definition result_world :: "'a outcome \<Rightarrow> (error \<times> world) + world" where
  "result_world r = (case r of Inl x \<Rightarrow> Inl x | Inr (x, w) \<Rightarrow> Inr w)"

definition written_columns :: "(error \<times> world) + world \<Rightarrow> string \<Rightarrow> string list option" where
  "written_columns r path =
     (case r of Inl (e, w) \<Rightarrow> map_option columns (written w path)
              | Inr w \<Rightarrow> map_option columns (written w path))"

text \<open>
  What can be observed of an input: a column of a raw file as it is stored, and for a
  frame given to the forecast the number of prices present after alignment, the dates
  of the aligned series, and the series itself as the model receives it.
\<close>

definition raw_column :: "world \<Rightarrow> string \<Rightarrow> string \<Rightarrow> csv_value list" where
  "raw_column w path c = (case raw w path of None \<Rightarrow> [] | Some (Csv header body) \<Rightarrow> map (\<lambda>r. r c) body)"

definition aligned_count :: "lib \<Rightarrow> frame \<Rightarrow> nat option" where
  "aligned_count L df =
     (case align_series L df of
        Inl e \<Rightarrow> None
      | Inr s \<Rightarrow> Some (length (filter (\<lambda>c. c \<noteq> Null) (iget s ''price''))))"

definition aligned_dates :: "lib \<Rightarrow> frame \<Rightarrow> int list" where
  "aligned_dates L df = (case align_series L df of Inl e \<Rightarrow> [] | Inr s \<Rightarrow> map fst (entries s))"

definition aligned_series :: "lib \<Rightarrow> frame \<Rightarrow> (int \<times> cell) list" where
  "aligned_series L df =
     (case align_series L df of
        Inl e \<Rightarrow> []
      | Inr s \<Rightarrow> zip (map fst (entries s)) (iget s ''price''))"

text \<open>
  A library for the examples. A number in a date column is read as nanoseconds since
  the epoch, as \<open>to_datetime\<close> does: the fraction is cut off, and a number outside
  the range of a 64-bit timestamp is not a date; no text is a date. No text is a number.
  The forecast stands for a fit that returns: on a series of finite values it repeats
  the last value on each of the days that follow, with an interval of no width; on a
  series that holds a value that is not finite, the mean and the bounds of every step
  are NaN.
\<close>

definition epoch_ns :: "cell list \<Rightarrow> nat \<Rightarrow> int option" where
  "epoch_ns col i =
     (case col ! i of
        Num x \<Rightarrow> (let t = (if 0 \<le> x then \<lfloor>x\<rfloor> else \<lceil>x\<rceil>)
                  in if - (2 ^ 63) < t \<and> t < 2 ^ 63 then Some t else None)
      | NegZero \<Rightarrow> Some 0
      | _ \<Rightarrow> None)"

definition finite_value :: "cell \<Rightarrow> bool" where
  "finite_value c = (case c of Num x \<Rightarrow> True | NegZero \<Rightarrow> True | _ \<Rightarrow> False)"

definition naive_arima ::
  "(int \<times> cell) list \<Rightarrow> nat \<times> nat \<times> nat \<Rightarrow> nat \<Rightarrow> (int \<times> cell \<times> cell \<times> cell) list option" where
  "naive_arima y ord steps =
     (if y = [] then None
      else if list_all (\<lambda>e. finite_value (snd e)) y
      then Some (map (\<lambda>k. (fst (last y) + int (k + 1) * one_day,
                             snd (last y), snd (last y), snd (last y))) [0 ..< steps])
      else Some (map (\<lambda>k. (fst (last y) + int (k + 1) * one_day, Null, Null, Null))
                     [0 ..< steps]))"

definition sample_lib :: lib where
  "sample_lib = \<lparr>to_datetime_utc = (\<lambda>col. Some (epoch_ns col)), to_datetime_plain = epoch_ns,
                  str_to_float = (\<lambda>s. Null), arima = naive_arima\<rparr>"

text \<open>
  Raw files are written row by row; \<open>midnight k\<close> is the timestamp of day \<open>k\<close> at
  00:00. A sample world holds the given raw files and nothing written yet.
\<close>

definition csv_row :: "(string \<times> csv_value) list \<Rightarrow> string \<Rightarrow> csv_value" where
  "csv_row al c = (case map_of al c of Some v \<Rightarrow> v | None \<Rightarrow> Empty)"

definition midnight :: "int \<Rightarrow> csv_value" where
  "midnight k = Number (of_int (k * one_day))"

definition sample_world :: "(string \<times> csv_file) list \<Rightarrow> world" where
  "sample_world fs = \<lparr>root_dir = ''/app'', raw_files = map fst fs, raw = map_of fs,
                       written = Map.empty, unwritable = (\<lambda>_. False), log = []\<rparr>"

text \<open>A table with aliased column names, and a raw file without a price column.\<close>

definition aliased_frame :: frame where
  "aliased_frame = \<lparr>columns = [''Datetime'', ''Close''],
                     rows = [(\<lambda>_. Null)(''Datetime'' := Num 0, ''Close'' := Num 10)]\<rparr>"

definition no_price_world :: world where
  "no_price_world = sample_world [(''data/raw/BTC.csv'',
      Csv [''date'', ''volume''] [csv_row [(''date'', midnight 0), (''volume'', Number 5)]])]"

text \<open>
  Raw files with the three canonical columns: one row; two rows with a day missing
  between them; a row at 18:00 of day 0 and one at 06:00 of day 2; a price that is text;
  no price
  at all; and a file with a fourth column.
\<close>

definition canonical_world :: world where
  "canonical_world = sample_world [(''data/raw/BTC.csv'',
      Csv [''date'', ''symbol'', ''price'']
        [csv_row [(''date'', midnight 0), (''symbol'', Text ''BTC''), (''price'', Number 10)]])]"

definition gap_world :: world where
  "gap_world = sample_world [(''data/raw/BTC.csv'',
      Csv [''date'', ''symbol'', ''price'']
        [csv_row [(''date'', midnight 0), (''symbol'', Text ''BTC''), (''price'', Number 10)],
         csv_row [(''date'', midnight 2), (''symbol'', Text ''BTC''), (''price'', Number 20)]])]"

definition off_midnight_world :: world where
  "off_midnight_world = sample_world [(''data/raw/BTC.csv'',
      Csv [''date'', ''symbol'', ''price'']
        [csv_row [(''date'', Number (of_int (3 * one_day div 4))),
                  (''symbol'', Text ''BTC''), (''price'', Number 10)],
         csv_row [(''date'', Number (of_int (2 * one_day + one_day div 4))),
                  (''symbol'', Text ''BTC''), (''price'', Number 20)]])]"

definition text_price_world :: world where
  "text_price_world = sample_world [(''data/raw/BTC.csv'',
      Csv [''date'', ''symbol'', ''price'']
        [csv_row [(''date'', midnight 0), (''symbol'', Text ''BTC''), (''price'', Text ''abc'')]])]"

definition null_price_world :: world where
  "null_price_world = sample_world [(''data/raw/BTC.csv'',
      Csv [''date'', ''symbol'', ''price'']
        [csv_row [(''date'', midnight 0), (''symbol'', Text ''BTC'')],
         csv_row [(''date'', midnight 1), (''symbol'', Text ''BTC'')]])]"

definition volume_world :: world where
  "volume_world = sample_world [(''data/raw/BTC.csv'',
      Csv [''date'', ''symbol'', ''price'', ''Volume'']
        [csv_row [(''date'', midnight 0), (''symbol'', Text ''BTC''), (''price'', Number 10),
                  (''Volume'', Number 7)]])]"

text \<open>
  A raw directory of two files, the first with the same timestamp on two rows.
\<close>

definition duplicate_world :: world where
  "duplicate_world = sample_world
     [(''data/raw/BTC.csv'',
       Csv [''date'', ''symbol'', ''price'']
         [csv_row [(''date'', midnight 0), (''symbol'', Text ''BTC''), (''price'', Number 10)],
          csv_row [(''date'', midnight 0), (''symbol'', Text ''BTC''), (''price'', Number 11)]]),
      (''data/raw/ETH.csv'',
       Csv [''date'', ''symbol'', ''price'']
         [csv_row [(''date'', midnight 0), (''symbol'', Text ''ETH''), (''price'', Number 5)]])]"

text \<open>
  Raw files for the change columns: the prices \<open>10 ^ 16\<close> and \<open>10 ^ 16 + 2\<close>, both
  doubles, then \<open>inf\<close> and 10, on four days in a row; and the price 10 on one day
  and 12 two days later.
\<close>

definition precision_world :: world where
  "precision_world = sample_world [(''data/raw/BTC.csv'',
      Csv [''date'', ''symbol'', ''price'']
        [csv_row [(''date'', midnight 0), (''symbol'', Text ''BTC''), (''price'', Number (10 ^ 16))],
         csv_row [(''date'', midnight 1), (''symbol'', Text ''BTC''),
                  (''price'', Number (10 ^ 16 + 2))],
         csv_row [(''date'', midnight 2), (''symbol'', Text ''BTC''), (''price'', Infinity True)],
         csv_row [(''date'', midnight 3), (''symbol'', Text ''BTC''), (''price'', Number 10)]])]"

definition steady_world :: world where
  "steady_world = sample_world [(''data/raw/BTC.csv'',
      Csv [''date'', ''symbol'', ''price'']
        [csv_row [(''date'', midnight 0), (''symbol'', Text ''BTC''), (''price'', Number 10)],
         csv_row [(''date'', midnight 2), (''symbol'', Text ''BTC''), (''price'', Number 12)]])]"

text \<open>
  Frames as input of the forecast: \<open>n\<close> rows that are \<open>step\<close> days apart with the
  price 100; and 25 days in a row with the price 100, but \<open>inf\<close> on the thirteenth.
\<close>

definition daily_frame :: "nat \<Rightarrow> int \<Rightarrow> frame" where
  "daily_frame n step =
     \<lparr>columns = [''date'', ''symbol'', ''price''],
      rows = map (\<lambda>k. (\<lambda>_. Null)(''date'' := Num (of_int (int k * step * one_day)),
                                 ''symbol'' := Txt ''BTC'', ''price'' := Num 100)) [0 ..< n]\<rparr>"

definition infinite_price_frame :: frame where
  "infinite_price_frame =
     \<lparr>columns = [''date'', ''symbol'', ''price''],
      rows = map (\<lambda>k. (\<lambda>_. Null)(''date'' := Num (of_int (int k * one_day)),
                                 ''symbol'' := Txt ''BTC'',
                                 ''price'' := (if k = 12 then Inf True else Num 100))) [0 ..< 25]\<rparr>"

text \<open>A world in which the forecast file of BTC cannot be written.\<close>

definition readonly_world :: world where
  "readonly_world =
     (sample_world [])\<lparr>unwritable := (\<lambda>p. p = ''/app/data/forecasted/forecast_BTC.csv'')\<rparr>"

section \<open>Facts about the frame operations and the column normalisation\<close>


lemma lower_lits: "lower ''date'' = ''date''" "lower ''price'' = ''price''" "lower ''Datetime'' = ''datetime''" "lower ''Close'' = ''close''"
  by code_simp+

lemma columns_rename: "columns (rename df old new) = map (\<lambda>c. if c = old then new else c) (columns df)"
  by (simp add: rename_def)

lemma get_col_rename:
  "get_col (rename df old new) c =
     (if c = new then get_col df old else if c = old then map (\<lambda>_. Null) (rows df) else get_col df c)"
  by (simp add: rename_def get_col_def)

lemma length_rows_rename: "length (rows (rename df old new)) = length (rows df)"
  by (simp add: rename_def)

lemma columns_set_col:
  "columns (set_col df c vs) = (if c \<in> set (columns df) then columns df else columns df @ [c])"
  by (simp add: set_col_def with_column_def)

lemma get_col_set_col:
  "length vs = length (rows df) \<Longrightarrow>
   get_col (set_col df c vs) c' = (if c' = c then vs else get_col df c')"
  by (auto simp: set_col_def get_col_def list_eq_iff_nth_eq)

lemma length_rows_set_col:
  "length vs = length (rows df) \<Longrightarrow> length (rows (set_col df c vs)) = length (rows df)"
  by (simp add: set_col_def)

lemma filter_hd_find:
  "filter P xs \<noteq> [] \<Longrightarrow> find P xs = Some (hd (filter P xs))"
  by (induction xs) auto

lemma filter_Nil_find: "filter P xs = [] \<Longrightarrow> find P xs = None"
  by (induction xs) (auto split: if_splits)

lemma find_SomeD: "find P xs = Some m \<Longrightarrow> P m \<and> m \<in> set xs \<and> filter P xs \<noteq> [] \<and> hd (filter P xs) = m"
  by (induction xs) (auto split: if_splits)

lemma find_map_other:
  "find P xs = Some m \<Longrightarrow> \<not> P new \<Longrightarrow> \<not> P old \<Longrightarrow>
   find P (map (\<lambda>c. if c = old then new else c) xs) = Some m"
  by (induction xs) (auto split: if_splits)

lemma find_map_other_None:
  "find P xs = None \<Longrightarrow> \<not> P new \<Longrightarrow>
   find P (map (\<lambda>c. if c = old then new else c) xs) = None"
  by (induction xs) (auto split: if_splits)

lemma columns_date_step:
  "columns (if filter P (columns df) \<noteq> [] \<and> t \<notin> set (columns df)
            then rename df (hd (filter P (columns df))) t else df)
   = (if t \<in> set (columns df) then columns df
      else (case find P (columns df) of None \<Rightarrow> columns df
            | Some m \<Rightarrow> map (\<lambda>c. if c = m then t else c) (columns df)))"
  by (cases "filter P (columns df) = []")
     (auto simp: columns_rename filter_hd_find filter_Nil_find)

lemma columns_validate:
  "columns (validate_and_fix_columns df p) =
     (let cs = resolve_alias {''price'', ''close'', ''adj close''} ''price''
                 (resolve_alias {''date'', ''datetime''} ''date'' (columns df))
      in if ''symbol'' \<in> set cs then cs else cs @ [''symbol''])"
proof -
  define D where "D = (\<lambda>c. lower c \<in> {''date'', ''datetime''})"
  define P where "P = (\<lambda>c. lower c \<in> {''price'', ''close'', ''adj close''})"
  define df1 where "df1 = (if filter D (columns df) \<noteq> [] \<and> ''date'' \<notin> set (columns df)
                 then rename df (hd (filter D (columns df))) ''date'' else df)"
  define df2 where "df2 = (if filter P (columns df1) \<noteq> [] \<and> ''price'' \<notin> set (columns df1)
                 then rename df1 (hd (filter P (columns df1))) ''price'' else df1)"
  have c1: "columns df1 = resolve_alias {''date'', ''datetime''} ''date'' (columns df)"
    unfolding df1_def columns_date_step resolve_alias_def D_def ..
  have c2: "columns df2 = resolve_alias {''price'', ''close'', ''adj close''} ''price'' (columns df1)"
    unfolding df2_def columns_date_step resolve_alias_def P_def ..
  have "validate_and_fix_columns df p =
         (if ''symbol'' \<notin> set (columns df2)
          then set_col df2 ''symbol''
                (replicate (length (rows df2)) (Txt (infer_symbol_from_filename p)))
          else df2)"
    by (simp add: validate_and_fix_columns_def Let_def df2_def df1_def D_def P_def)
  then show ?thesis
    by (simp add: columns_set_col c1 c2 Let_def)
qed

lemma lower_symbol_facts:
  "lower ''symbol'' \<notin> {''date'', ''datetime''}" "lower ''symbol'' \<notin> {''price'', ''close'', ''adj close''}"
  "lower ''date'' \<notin> {''price'', ''close'', ''adj close''}" "lower ''price'' \<notin> {''date'', ''datetime''}"
  by code_simp+

lemma hd_filter: "filter P xs \<noteq> [] \<Longrightarrow> P (hd (filter P xs)) \<and> hd (filter P xs) \<in> set xs"
  using hd_in_set [of "filter P xs"] by auto

lemma date_alias_neq:
  assumes "lower m \<in> {''date'', ''datetime''}"
  shows "m \<noteq> ''symbol''" "m \<noteq> ''price''" "lower m \<notin> {''price'', ''close'', ''adj close''}"
  using assms lower_symbol_facts by auto

lemma price_alias_neq:
  assumes "lower m \<in> {''price'', ''close'', ''adj close''}"
  shows "m \<noteq> ''symbol''" "m \<noteq> ''date''" "lower m \<notin> {''date'', ''datetime''}"
  using assms lower_symbol_facts by auto

text \<open>The frame after each of the two renaming steps.\<close>

lemma validate_stages:
  fixes df p
  defines "D \<equiv> (\<lambda>c. lower c \<in> {''date'', ''datetime''})"
      and "P \<equiv> (\<lambda>c. lower c \<in> {''price'', ''close'', ''adj close''})"
  defines "df1 \<equiv> (if filter D (columns df) \<noteq> [] \<and> ''date'' \<notin> set (columns df)
                 then rename df (hd (filter D (columns df))) ''date'' else df)"
  defines "df2 \<equiv> (if filter P (columns df1) \<noteq> [] \<and> ''price'' \<notin> set (columns df1)
                 then rename df1 (hd (filter P (columns df1))) ''price'' else df1)"
  shows "validate_and_fix_columns df p =
         (if ''symbol'' \<notin> set (columns df2)
          then set_col df2 ''symbol''
                (replicate (length (rows df2)) (Txt (infer_symbol_from_filename p)))
          else df2)"
  unfolding validate_and_fix_columns_def Let_def df2_def df1_def D_def P_def ..

lemma length_rows_step:
  "length (rows (if b then rename df old new else df)) = length (rows df)"
  by (simp add: length_rows_rename)

lemma columns_step_other:
  "c \<noteq> new \<Longrightarrow>
   c \<in> set (columns (if b then rename df old new else df)) \<Longrightarrow> c \<in> set (columns df)"
  by (auto simp: columns_rename split: if_splits)

lemma length_rows_validate [simp]:
  "length (rows (validate_and_fix_columns df p)) = length (rows df)"
  unfolding validate_stages
  by (simp add: length_rows_set_col length_rows_step del: set_filter)

lemma symbol_in_validate: "''symbol'' \<in> set (columns (validate_and_fix_columns df p))"
  unfolding validate_stages
  by (simp add: columns_set_col del: set_filter)

lemma get_col_symbol_validate:
  assumes "''symbol'' \<notin> set (columns df)"
  shows "get_col (validate_and_fix_columns df p) ''symbol'' =
           replicate (length (rows df)) (Txt (infer_symbol_from_filename p))"
proof -
  define D where "D = (\<lambda>c. lower c \<in> {''date'', ''datetime''})"
  define P where "P = (\<lambda>c. lower c \<in> {''price'', ''close'', ''adj close''})"
  define df1 where "df1 = (if filter D (columns df) \<noteq> [] \<and> ''date'' \<notin> set (columns df)
                 then rename df (hd (filter D (columns df))) ''date'' else df)"
  define df2 where "df2 = (if filter P (columns df1) \<noteq> [] \<and> ''price'' \<notin> set (columns df1)
                 then rename df1 (hd (filter P (columns df1))) ''price'' else df1)"
  have v: "validate_and_fix_columns df p =
         (if ''symbol'' \<notin> set (columns df2)
          then set_col df2 ''symbol''
                (replicate (length (rows df2)) (Txt (infer_symbol_from_filename p)))
          else df2)"
    unfolding df2_def df1_def D_def P_def by (rule validate_stages)
  have "''symbol'' \<notin> set (columns df1)"
    using assms columns_step_other [of "''symbol''" "''date''"] unfolding df1_def by blast
  then have n2: "''symbol'' \<notin> set (columns df2)"
    using columns_step_other [of "''symbol''" "''price''"] unfolding df2_def by blast
  have len: "length (rows df2) = length (rows df)"
    unfolding df2_def df1_def by (simp only: length_rows_step)
  show ?thesis
    by (simp add: v n2 get_col_set_col len)
qed

lemma get_col_date_validate:
  assumes nd: "''date'' \<notin> set (columns df)"
      and fm: "find (\<lambda>c. lower c \<in> {''date'', ''datetime''}) (columns df) = Some m"
  shows "get_col (validate_and_fix_columns df p) ''date'' = get_col df m"
proof -
  define D where "D = (\<lambda>c. lower c \<in> {''date'', ''datetime''})"
  define P where "P = (\<lambda>c. lower c \<in> {''price'', ''close'', ''adj close''})"
  define df1 where "df1 = (if filter D (columns df) \<noteq> [] \<and> ''date'' \<notin> set (columns df)
                 then rename df (hd (filter D (columns df))) ''date'' else df)"
  define df2 where "df2 = (if filter P (columns df1) \<noteq> [] \<and> ''price'' \<notin> set (columns df1)
                 then rename df1 (hd (filter P (columns df1))) ''price'' else df1)"
  have v: "validate_and_fix_columns df p =
         (if ''symbol'' \<notin> set (columns df2)
          then set_col df2 ''symbol''
                (replicate (length (rows df2)) (Txt (infer_symbol_from_filename p)))
          else df2)"
    unfolding df2_def df1_def D_def P_def by (rule validate_stages)
  from find_SomeD [OF fm] have m: "filter D (columns df) \<noteq> []" "hd (filter D (columns df)) = m"
    by (simp_all add: D_def)
  have df1: "df1 = rename df m ''date''"
    using m nd by (simp add: df1_def)
  have g1: "get_col df1 ''date'' = get_col df m"
    by (simp add: df1 get_col_rename)
  have g2: "get_col df2 ''date'' = get_col df1 ''date''"
  proof (cases "filter P (columns df1) \<noteq> [] \<and> ''price'' \<notin> set (columns df1)")
    case True
    then have "P (hd (filter P (columns df1)))" using hd_filter by blast
    then have "hd (filter P (columns df1)) \<noteq> ''date''"
      using price_alias_neq(2) by (auto simp: P_def)
    with True show ?thesis by (simp add: df2_def get_col_rename)
  next
    case False
    then show ?thesis by (auto simp: df2_def)
  qed
  show ?thesis
    by (simp add: v get_col_set_col g1 g2)
qed

lemma get_col_price_validate:
  assumes np: "''price'' \<notin> set (columns df)"
      and fm: "find (\<lambda>c. lower c \<in> {''price'', ''close'', ''adj close''}) (columns df) = Some m"
  shows "get_col (validate_and_fix_columns df p) ''price'' = get_col df m"
proof -
  define D where "D = (\<lambda>c. lower c \<in> {''date'', ''datetime''})"
  define P where "P = (\<lambda>c. lower c \<in> {''price'', ''close'', ''adj close''})"
  define df1 where "df1 = (if filter D (columns df) \<noteq> [] \<and> ''date'' \<notin> set (columns df)
                 then rename df (hd (filter D (columns df))) ''date'' else df)"
  define df2 where "df2 = (if filter P (columns df1) \<noteq> [] \<and> ''price'' \<notin> set (columns df1)
                 then rename df1 (hd (filter P (columns df1))) ''price'' else df1)"
  have v: "validate_and_fix_columns df p =
         (if ''symbol'' \<notin> set (columns df2)
          then set_col df2 ''symbol''
                (replicate (length (rows df2)) (Txt (infer_symbol_from_filename p)))
          else df2)"
    unfolding df2_def df1_def D_def P_def by (rule validate_stages)
  have Pm: "P m" and fP: "find P (columns df) = Some m"
    using find_SomeD [OF fm] fm by (simp_all add: P_def)
  have nPd: "\<not> P ''date''"
    using lower_symbol_facts(3) by (simp add: P_def)
  have one: "find P (columns df1) = Some m \<and> ''price'' \<notin> set (columns df1)
             \<and> get_col df1 m = get_col df m"
  proof (cases "filter D (columns df) \<noteq> [] \<and> ''date'' \<notin> set (columns df)")
    case True
    define md where "md = hd (filter D (columns df))"
    have "D md" using True hd_filter unfolding md_def by blast
    then have nP: "\<not> P md" and ne: "md \<noteq> ''price''"
      using date_alias_neq by (auto simp: D_def P_def)
    have "m \<noteq> md" using Pm nP by auto
    moreover have "m \<noteq> ''date''" using Pm nPd by auto
    ultimately show ?thesis
      using True np ne find_map_other [OF fP nPd nP]
      by (auto simp: df1_def columns_rename get_col_rename md_def)
  next
    case False
    then show ?thesis using fP np by (auto simp: df1_def)
  qed
  from one find_SomeD [of P "columns df1" m]
  have df2: "df2 = rename df1 m ''price''"
    by (simp add: df2_def)
  show ?thesis
    using one by (simp add: v get_col_set_col df2 get_col_rename)
qed

lemma get_col_date_kept:
  assumes "''date'' \<in> set (columns df)"
  shows "get_col (validate_and_fix_columns df p) ''date'' = get_col df ''date''"
proof -
  define D where "D = (\<lambda>c. lower c \<in> {''date'', ''datetime''})"
  define P where "P = (\<lambda>c. lower c \<in> {''price'', ''close'', ''adj close''})"
  define df1 where "df1 = (if filter D (columns df) \<noteq> [] \<and> ''date'' \<notin> set (columns df)
                 then rename df (hd (filter D (columns df))) ''date'' else df)"
  define df2 where "df2 = (if filter P (columns df1) \<noteq> [] \<and> ''price'' \<notin> set (columns df1)
                 then rename df1 (hd (filter P (columns df1))) ''price'' else df1)"
  have v: "validate_and_fix_columns df p =
         (if ''symbol'' \<notin> set (columns df2)
          then set_col df2 ''symbol''
                (replicate (length (rows df2)) (Txt (infer_symbol_from_filename p)))
          else df2)"
    unfolding df2_def df1_def D_def P_def by (rule validate_stages)
  have df1: "df1 = df" using assms by (simp add: df1_def)
  have "get_col df2 ''date'' = get_col df1 ''date''"
  proof (cases "filter P (columns df1) \<noteq> [] \<and> ''price'' \<notin> set (columns df1)")
    case True
    then have "P (hd (filter P (columns df1)))" using hd_filter by blast
    then have "hd (filter P (columns df1)) \<noteq> ''date''"
      using price_alias_neq(2) by (auto simp: P_def)
    with True show ?thesis by (simp add: df2_def get_col_rename)
  next
    case False
    then show ?thesis by (auto simp: df2_def)
  qed
  then show ?thesis by (simp add: v get_col_set_col df1)
qed

lemma get_col_price_kept:
  assumes "''price'' \<in> set (columns df)"
  shows "get_col (validate_and_fix_columns df p) ''price'' = get_col df ''price''"
proof -
  define D where "D = (\<lambda>c. lower c \<in> {''date'', ''datetime''})"
  define P where "P = (\<lambda>c. lower c \<in> {''price'', ''close'', ''adj close''})"
  define df1 where "df1 = (if filter D (columns df) \<noteq> [] \<and> ''date'' \<notin> set (columns df)
                 then rename df (hd (filter D (columns df))) ''date'' else df)"
  define df2 where "df2 = (if filter P (columns df1) \<noteq> [] \<and> ''price'' \<notin> set (columns df1)
                 then rename df1 (hd (filter P (columns df1))) ''price'' else df1)"
  have v: "validate_and_fix_columns df p =
         (if ''symbol'' \<notin> set (columns df2)
          then set_col df2 ''symbol''
                (replicate (length (rows df2)) (Txt (infer_symbol_from_filename p)))
          else df2)"
    unfolding df2_def df1_def D_def P_def by (rule validate_stages)
  have one: "''price'' \<in> set (columns df1) \<and> get_col df1 ''price'' = get_col df ''price''"
  proof (cases "filter D (columns df) \<noteq> [] \<and> ''date'' \<notin> set (columns df)")
    case True
    then have "D (hd (filter D (columns df)))" using hd_filter by blast
    then have "hd (filter D (columns df)) \<noteq> ''price''"
      using date_alias_neq(2) by (auto simp: D_def)
    with True assms show ?thesis
      by (auto simp: df1_def columns_rename get_col_rename image_iff)
  next
    case False
    then show ?thesis using assms by (auto simp: df1_def)
  qed
  then have df2: "df2 = df1" by (simp add: df2_def)
  show ?thesis using one by (simp add: v get_col_set_col df2)
qed

section \<open>The paths through \<open>process_file\<close>\<close>


lemma log_say [simp]: "log (say w e) = log w @ [e]"
  and written_say [simp]: "written (say w e) = written w"
  and unwritable_say [simp]: "unwritable (say w e) = unwritable w"
  and raw_say [simp]: "raw (say w e) = raw w"
  by (simp_all add: say_def)

lemma convert_dates_log:
  "convert_dates L w p df = (df2, w1) \<Longrightarrow>
     (w1 = w \<or> w1 = say w (DateParseError p))"
  by (auto simp: convert_dates_def Let_def split: option.splits)

lemma process_file_cases:
  assumes pf: "process_file L w p = Inr (r, w')"
  obtains
    (unreadable) e where "read_csv w p = Inl e" "r = None" "w' = say w (CannotRead p)"
  | (empty) df0 where "read_csv w p = Inr df0" "empty_frame df0" "r = None"
        "w' = say w (EmptyData p)"
  | (missing) df0 ms where "read_csv w p = Inr df0" "\<not> empty_frame df0"
        "ms = filter (\<lambda>c. c \<notin> set (columns (validate_and_fix_columns df0 p)))
                [''date'', ''symbol'', ''price'']"
        "ms \<noteq> []" "r = None"
        "w' = say w (MissingColumns p ms (columns (validate_and_fix_columns df0 p)))"
  | (norows) df0 df2 w1 where "read_csv w p = Inr df0" "\<not> empty_frame df0"
        "convert_dates L w p (validate_and_fix_columns df0 p) = (df2, w1)"
        "rows (clean df2) = []" "r = None" "w' = say w1 (NoRowsLeft p)"
  | (ok) df0 df2 w1 ix out where "read_csv w p = Inr df0" "\<not> empty_frame df0"
        "{''date'', ''symbol'', ''price''} \<subseteq> set (columns (validate_and_fix_columns df0 p))"
        "convert_dates L w p (validate_and_fix_columns df0 p) = (df2, w1)"
        "rows (clean df2) \<noteq> []"
        "asfreq_D (set_index (clean df2) ''date'') = Inr ix"
        "reset_index (change_columns (fill_gaps L ix)) ''date'' = Inr out"
        "r = Some out"
        "w' = say (if length (rows (clean df2)) < length (rows df2)
                   then say w1 (DroppedRows p (length (rows df2) - length (rows (clean df2))))
                   else w1) (Processed p (length (rows out)))"
proof (cases "read_csv w p")
  case (Inl e)
  with pf show ?thesis by (intro unreadable [of e]) (simp_all add: process_file_def)
next
  case (Inr df0)
  note rd = this
  show ?thesis
  proof (cases "empty_frame df0")
    case True
    with pf rd show ?thesis by (intro empty [of df0]) (simp_all add: process_file_def)
  next
    case ne: False
    define df1 where "df1 = validate_and_fix_columns df0 p"
    define ms where "ms = filter (\<lambda>c. c \<notin> set (columns df1)) [''date'', ''symbol'', ''price'']"
    obtain df2 w1 where cd: "convert_dates L w p df1 = (df2, w1)"
      by (cases "convert_dates L w p df1")
    define w2 where "w2 = (if length (rows (clean df2)) < length (rows df2)
                   then say w1 (DroppedRows p (length (rows df2) - length (rows (clean df2))))
                   else w1)"
    have pf0: "(if ms \<noteq> [] then Inr (None, say w (MissingColumns p ms (columns df1)))
         else if length (rows (clean df2)) = 0 then Inr (None, say w1 (NoRowsLeft p))
             else (case asfreq_D (set_index (clean df2) ''date'') of
                            Inl e \<Rightarrow> Inl (e, w2)
                          | Inr ix \<Rightarrow>
                              (case reset_index (change_columns (fill_gaps L ix)) ''date'' of
                                 Inl e \<Rightarrow> Inl (e, w2)
                               | Inr df \<Rightarrow>
                                   Inr (Some df, say w2 (Processed p (length (rows df))))))) = Inr (r, w')"
      using pf unfolding process_file_def Let_def rd sum.case
      apply (simp only: ne if_False flip: df1_def)
      apply (simp only: cd prod.case flip: ms_def w2_def)
      done
    show ?thesis
    proof (cases "ms = []")
      case False
      with pf0 show ?thesis
        using rd ne by (intro missing [of df0 ms]) (simp_all add: ms_def df1_def)
    next
      case msNil: True
      have cols: "{''date'', ''symbol'', ''price''} \<subseteq> set (columns df1)"
        using msNil by (auto simp: ms_def split: if_splits)
      show ?thesis
      proof (cases "rows (clean df2) = []")
        case True
        with pf0 msNil show ?thesis
          by (intro norows [of df0 df2 w1]) (simp_all add: rd ne cd [unfolded df1_def])
      next
        case False
        with pf0 msNil obtain ix out where
          "asfreq_D (set_index (clean df2) ''date'') = Inr ix"
          "reset_index (change_columns (fill_gaps L ix)) ''date'' = Inr out"
          "r = Some out"
          "w' = say w2 (Processed p (length (rows out)))"
          by (auto split: sum.splits)
        with False show ?thesis
          using rd ne cd cols unfolding df1_def w2_def
          by (intro ok [of df0 df2 w1 ix out]) simp_all
      qed
    qed
  qed
qed

lemma get_col_symbol_kept:
  assumes "''symbol'' \<in> set (columns df)"
  shows "get_col (validate_and_fix_columns df p) ''symbol'' = get_col df ''symbol''"
proof -
  define D where "D = (\<lambda>c. lower c \<in> {''date'', ''datetime''})"
  define P where "P = (\<lambda>c. lower c \<in> {''price'', ''close'', ''adj close''})"
  define df1 where "df1 = (if filter D (columns df) \<noteq> [] \<and> ''date'' \<notin> set (columns df)
                 then rename df (hd (filter D (columns df))) ''date'' else df)"
  define df2 where "df2 = (if filter P (columns df1) \<noteq> [] \<and> ''price'' \<notin> set (columns df1)
                 then rename df1 (hd (filter P (columns df1))) ''price'' else df1)"
  have v: "validate_and_fix_columns df p =
         (if ''symbol'' \<notin> set (columns df2)
          then set_col df2 ''symbol''
                (replicate (length (rows df2)) (Txt (infer_symbol_from_filename p)))
          else df2)"
    unfolding df2_def df1_def D_def P_def by (rule validate_stages)
  have one: "''symbol'' \<in> set (columns df1) \<and> get_col df1 ''symbol'' = get_col df ''symbol''"
  proof (cases "filter D (columns df) \<noteq> [] \<and> ''date'' \<notin> set (columns df)")
    case True
    then have "D (hd (filter D (columns df)))" using hd_filter by blast
    then have "hd (filter D (columns df)) \<noteq> ''symbol''"
      using date_alias_neq(1) by (auto simp: D_def)
    with True assms show ?thesis
      by (auto simp: df1_def columns_rename get_col_rename image_iff)
  next
    case False
    then show ?thesis using assms by (auto simp: df1_def)
  qed
  have two: "''symbol'' \<in> set (columns df2) \<and> get_col df2 ''symbol'' = get_col df ''symbol''"
  proof (cases "filter P (columns df1) \<noteq> [] \<and> ''price'' \<notin> set (columns df1)")
    case True
    then have "P (hd (filter P (columns df1)))" using hd_filter by blast
    then have "hd (filter P (columns df1)) \<noteq> ''symbol''"
      using price_alias_neq(1) by (auto simp: P_def)
    with True one show ?thesis
      by (auto simp: df2_def columns_rename get_col_rename image_iff)
  next
    case False
    then show ?thesis using one by (auto simp: df2_def)
  qed
  show ?thesis using two by (simp add: v)
qed

lemma process_file_log:
  assumes "process_file L w p = Inr (r, w')"
  shows "\<exists>evs. log w' = log w @ evs \<and>
           (\<forall>f ms cs. MissingColumns f ms cs \<in> set evs \<longrightarrow> ms \<noteq> [] \<and> set ms \<subseteq> {''date'', ''price''})"
  using assms
proof (cases rule: process_file_cases)
  case (missing df0 ms)
  then show ?thesis using symbol_in_validate [of df0 p] by auto
next
  case (norows df0 df2 w1)
  then show ?thesis using convert_dates_log [OF norows(3)] by auto
next
  case (ok df0 df2 w1 ix out)
  then show ?thesis using convert_dates_log [OF ok(4)] by auto
qed auto


section \<open>Columns, filling and the daily range\<close>


lemma length_ffill_from [simp]: "length (ffill_from p xs) = length xs"
  by (induction xs arbitrary: p) auto

lemma length_ffill [simp]: "length (ffill xs) = length xs"
  by (simp add: ffill_def)

lemma length_bfill [simp]: "length (bfill xs) = length xs"
  by (simp add: bfill_def)

lemma length_pct_change [simp]: "length (pct_change n xs) = length xs"
  by (simp add: pct_change_def)

lemma length_times [simp]: "length (times xs k) = length xs"
  by (simp add: times_def)

lemma length_stamp_cells [simp]: "length (stamp_cells f col) = length col"
  by (simp add: stamp_cells_def)

lemma length_get_col [simp]: "length (get_col df c) = length (rows df)"
  by (simp add: get_col_def)

lemma length_iget [simp]: "length (iget ix c) = length (entries ix)"
  by (simp add: iget_def)

lemma labels_iset:
  "length vs = length (entries ix) \<Longrightarrow> map fst (entries (iset ix c vs)) = map fst (entries ix)"
  by (auto simp: iset_def list_eq_iff_nth_eq split: prod.splits)

lemma length_entries_iset:
  "length vs = length (entries ix) \<Longrightarrow> length (entries (iset ix c vs)) = length (entries ix)"
  by (simp add: iset_def)

lemma iget_iset:
  "length vs = length (entries ix) \<Longrightarrow>
   iget (iset ix c vs) c' = (if c' = c then vs else iget ix c')"
  by (auto simp: iset_def iget_def list_eq_iff_nth_eq split: prod.splits)

lemma icolumns_iset:
  "icolumns (iset ix c vs) = (if c \<in> set (icolumns ix) then icolumns ix else icolumns ix @ [c])"
  by (simp add: iset_def with_column_def)

subsection \<open>Forward and backward filling\<close>

lemma set_ffill_from: "set (ffill_from p xs) \<subseteq> insert p (set xs)"
  by (induction xs arbitrary: p) (auto split: if_splits)

lemma set_ffill: "set (ffill xs) \<subseteq> insert Null (set xs)"
  unfolding ffill_def by (rule set_ffill_from)

lemma set_bfill: "set (bfill xs) \<subseteq> insert Null (set xs)"
  unfolding bfill_def using set_ffill [of "rev xs"] by simp

lemma ffill_from_no_null: "p \<noteq> Null \<Longrightarrow> Null \<notin> set (ffill_from p xs)"
  by (induction xs arbitrary: p) auto

lemma ffill_from_last:
  "\<exists>c \<in> set xs. c \<noteq> Null \<Longrightarrow> ffill_from p xs \<noteq> [] \<and> last (ffill_from p xs) \<noteq> Null"
proof (induction xs arbitrary: p)
  case Nil
  then show ?case by simp
next
  case (Cons c cs)
  show ?case
  proof (cases "c = Null")
    case True
    with Cons.prems have "\<exists>c \<in> set cs. c \<noteq> Null" by auto
    from Cons.IH [OF this, of p] True show ?thesis by simp
  next
    case False
    then have "Null \<notin> set (ffill_from c cs)" by (rule ffill_from_no_null)
    then have "last (ffill_from c cs) \<noteq> Null" if "ffill_from c cs \<noteq> []"
      using last_in_set [OF that] by metis
    then show ?thesis using False by auto
  qed
qed

lemma ffill_from_hd: "xs \<noteq> [] \<Longrightarrow> hd xs \<noteq> Null \<Longrightarrow> Null \<notin> set (ffill_from p xs)"
  by (cases xs) (auto simp: ffill_from_no_null)

lemma bfill_ffill_no_null:
  assumes "\<exists>c \<in> set xs. c \<noteq> Null"
  shows "Null \<notin> set (bfill (ffill xs))"
proof -
  from ffill_from_last [OF assms, of Null]
  have "rev (ffill xs) \<noteq> []" "hd (rev (ffill xs)) \<noteq> Null"
    by (simp_all add: ffill_def hd_rev)
  from ffill_from_hd [OF this, of Null] show ?thesis
    by (simp add: bfill_def ffill_def)
qed

lemma bfill_ffill_all_null:
  assumes "\<forall>c \<in> set xs. c = Null"
  shows "\<forall>c \<in> set (bfill (ffill xs)). c = Null"
  using set_bfill [of "ffill xs"] set_ffill [of xs] assms by blast

subsection \<open>The daily range\<close>

lemma one_day_pos: "0 < one_day"
  by (simp add: one_day_def)

lemma length_date_range: "length (date_range lo hi) = nat ((hi - lo) div one_day + 1)"
  by (simp add: date_range_def)

lemma nth_date_range:
  "i < length (date_range lo hi) \<Longrightarrow> date_range lo hi ! i = lo + int i * one_day"
  by (simp add: date_range_def)

lemma date_range_nonempty: "lo \<le> hi \<Longrightarrow> date_range lo hi \<noteq> []"
proof -
  assume "lo \<le> hi"
  then have "0 \<le> (hi - lo) div one_day" using one_day_pos by (simp add: pos_imp_zdiv_nonneg_iff)
  then show ?thesis by (simp add: date_range_def)
qed

lemma hd_date_range: "lo \<le> hi \<Longrightarrow> hd (date_range lo hi) = lo"
  using date_range_nonempty [of lo hi] nth_date_range [of 0 lo hi]
  by (simp add: hd_conv_nth)

lemma sorted_date_range: "sorted_wrt (<) (date_range lo hi)"
  using one_day_pos
  by (auto simp: sorted_wrt_iff_nth_less nth_date_range)

lemma distinct_date_range: "distinct (date_range lo hi)"
  using sorted_date_range [of lo hi] by (simp add: strict_sorted_iff)

lemma step_date_range:
  "Suc i < length (date_range lo hi) \<Longrightarrow> date_range lo hi ! Suc i = date_range lo hi ! i + one_day"
  by (simp add: nth_date_range algebra_simps)

lemma last_date_range:
  assumes "lo \<le> hi"
  shows "last (date_range lo hi) = lo + ((hi - lo) div one_day) * one_day"
proof -
  have n: "0 \<le> (hi - lo) div one_day" using assms one_day_pos by (simp add: pos_imp_zdiv_nonneg_iff)
  have "last (date_range lo hi) = date_range lo hi ! (length (date_range lo hi) - 1)"
    using date_range_nonempty [OF assms] by (simp add: last_conv_nth)
  also have "\<dots> = lo + int (length (date_range lo hi) - 1) * one_day"
    using date_range_nonempty [OF assms] by (intro nth_date_range) simp
  also have "int (length (date_range lo hi) - 1) = (hi - lo) div one_day"
    using n by (simp add: length_date_range nat_add_distrib)
  finally show ?thesis .
qed

lemma last_date_range_bounds:
  assumes "lo \<le> hi"
  shows "last (date_range lo hi) \<le> hi" "hi < last (date_range lo hi) + one_day"
    "(hi - lo) mod one_day = 0 \<Longrightarrow> last (date_range lo hi) = hi"
proof -
  have e: "hi - lo = ((hi - lo) div one_day) * one_day + (hi - lo) mod one_day"
    by simp
  have m: "0 \<le> (hi - lo) mod one_day" "(hi - lo) mod one_day < one_day"
    using one_day_pos by simp_all
  show "last (date_range lo hi) \<le> hi" "hi < last (date_range lo hi) + one_day"
    using e m unfolding last_date_range [OF assms] by linarith+
  show "last (date_range lo hi) = hi" if "(hi - lo) mod one_day = 0"
    using e that unfolding last_date_range [OF assms] by linarith
qed

lemma div_mult_le_int: "0 < d \<Longrightarrow> (a::int) div d * d \<le> a"
proof -
  assume "0 < d"
  then have "0 \<le> a mod d" by simp
  moreover have "a div d * d + a mod d = a" by simp
  ultimately show ?thesis by linarith
qed

lemma in_date_range_iff:
  "t \<in> set (date_range lo hi) \<longleftrightarrow> lo \<le> t \<and> t \<le> hi \<and> (t - lo) mod one_day = 0"
proof
  assume "t \<in> set (date_range lo hi)"
  then obtain k where k: "k < nat ((hi - lo) div one_day + 1)" "t = lo + int k * one_day"
    by (auto simp: date_range_def)
  then have "int k \<le> (hi - lo) div one_day" by linarith
  then have "int k * one_day \<le> ((hi - lo) div one_day) * one_day"
    using one_day_pos by simp
  also have "\<dots> \<le> hi - lo"
    using one_day_pos by (rule div_mult_le_int)
  finally show "lo \<le> t \<and> t \<le> hi \<and> (t - lo) mod one_day = 0"
    using k one_day_pos by auto
next
  assume a: "lo \<le> t \<and> t \<le> hi \<and> (t - lo) mod one_day = 0"
  define k where "k = nat ((t - lo) div one_day)"
  have "0 \<le> (t - lo) div one_day" using a one_day_pos by (simp add: pos_imp_zdiv_nonneg_iff)
  then have ik: "int k = (t - lo) div one_day" by (simp add: k_def)
  have "(t - lo) div one_day * one_day + (t - lo) mod one_day = t - lo" by simp
  then have "t = lo + int k * one_day" using a ik by simp
  moreover have "(t - lo) div one_day \<le> (hi - lo) div one_day"
    using a one_day_pos by (intro zdiv_mono1) auto
  then have "k < nat ((hi - lo) div one_day + 1)" using ik by linarith
  ultimately show "t \<in> set (date_range lo hi)"
    by (auto simp: date_range_def)
qed


subsection \<open>Reindexing on the daily range\<close>

lemma asfreq_D_Inr:
  assumes "asfreq_D ix = Inr ix'" and "entries ix \<noteq> []"
  shows "distinct (map fst (entries ix))"
    and "entries ix' =
           map (\<lambda>t. (t, case map_of (entries ix) t of Some r \<Rightarrow> r | None \<Rightarrow> (\<lambda>_. Null)))
               (date_range (Min (fst ` set (entries ix))) (Max (fst ` set (entries ix))))"
    and "icolumns ix' = icolumns ix"
  using assms by (auto simp: asfreq_D_def Let_def split: if_splits)

lemma asfreq_D_labels:
  assumes "asfreq_D ix = Inr ix'" and "entries ix \<noteq> []"
  shows "map fst (entries ix') =
           date_range (Min (fst ` set (entries ix))) (Max (fst ` set (entries ix)))"
  unfolding asfreq_D_Inr(2) [OF assms] by (simp add: comp_def)

lemma asfreq_D_duplicate:
  "\<not> distinct (map fst (entries ix)) \<Longrightarrow> asfreq_D ix = Inl ValueError"
  by (auto simp: asfreq_D_def Let_def)

subsection \<open>Rows through cleaning and indexing\<close>

lemma rows_set_col_cell:
  "r \<in> set (rows (set_col df c vs)) \<Longrightarrow> r c \<in> set vs"
  by (auto simp: set_col_def dest: set_zip_rightD)

lemma rows_set_col_other:
  "r \<in> set (rows (set_col df c vs)) \<Longrightarrow> \<exists>r0 \<in> set (rows df). \<forall>c'. c' \<noteq> c \<longrightarrow> r c' = r0 c'"
  by (auto simp: set_col_def dest: set_zip_leftD)

lemma set_stamp_cells: "v \<in> set (stamp_cells f col) \<Longrightarrow> v = Null \<or> (\<exists>t. v = Stamp t)"
  by (auto simp: stamp_cells_def split: option.splits)

lemma set_rows_clean: "set (rows (clean df)) = {r \<in> set (rows df). r ''date'' \<noteq> Null \<and> r ''price'' \<noteq> Null}"
  by (auto simp: clean_def sort_values_def dropna_def)

lemma columns_clean [simp]: "columns (clean df) = columns df"
  by (simp add: clean_def sort_values_def dropna_def)

lemma length_rows_clean_le: "length (rows (clean df)) \<le> length (rows df)"
  by (simp add: clean_def sort_values_def dropna_def)

lemma map_filter_all_Some:
  "\<forall>x \<in> set xs. \<exists>y. f x = Some y \<Longrightarrow> List.map_filter f xs = map (\<lambda>x. the (f x)) xs"
  by (induction xs) auto

lemma entries_set_index_stamped:
  assumes "\<forall>r \<in> set (rows df). \<exists>t. r c = Stamp t"
  shows "length (entries (set_index df c)) = length (rows df)"
proof -
  have "\<forall>r \<in> set (rows df). \<exists>y. (case r c of Stamp t \<Rightarrow> Some (t, r(c := Null)) | _ \<Rightarrow> None) = Some y"
    using assms by (auto split: cell.splits)
  from map_filter_all_Some [OF this] show ?thesis
    by (simp add: set_index_def)
qed

lemma set_entries_set_index:
  "(t, r) \<in> set (entries (set_index df c)) \<Longrightarrow> \<exists>r0 \<in> set (rows df). r0 c = Stamp t \<and> r = r0(c := Null)"
  by (auto simp: set_index_def List.map_filter_def split: cell.splits)

lemma icolumns_set_index [simp]: "icolumns (set_index df c) = filter (\<lambda>x. x \<noteq> c) (columns df)"
  by (simp add: set_index_def)

lemma convert_dates_eq:
  assumes "convert_dates L w p df = (df2, w1)"
  obtains f where "df2 = set_col df ''date'' (stamp_cells f (get_col df ''date''))"
  using assms by (auto simp: convert_dates_def Let_def split: option.splits)

lemma convert_dates_rows:
  assumes "convert_dates L w p df = (df2, w1)"
  shows "\<forall>r \<in> set (rows df2). r ''date'' = Null \<or> (\<exists>t. r ''date'' = Stamp t)"
    and "\<forall>r \<in> set (rows df2). \<exists>r0 \<in> set (rows df). \<forall>c. c \<noteq> ''date'' \<longrightarrow> r c = r0 c"
    and "columns df2 = (if ''date'' \<in> set (columns df) then columns df else columns df @ [''date''])"
    and "length (rows df2) = length (rows df)"
proof -
  from assms obtain f where e: "df2 = set_col df ''date'' (stamp_cells f (get_col df ''date''))"
    by (rule convert_dates_eq)
  show "\<forall>r \<in> set (rows df2). r ''date'' = Null \<or> (\<exists>t. r ''date'' = Stamp t)"
    unfolding e using rows_set_col_cell set_stamp_cells by blast
  show "\<forall>r \<in> set (rows df2). \<exists>r0 \<in> set (rows df). \<forall>c. c \<noteq> ''date'' \<longrightarrow> r c = r0 c"
    unfolding e using rows_set_col_other by blast
  show "columns df2 = (if ''date'' \<in> set (columns df) then columns df else columns df @ [''date''])"
    unfolding e by (rule columns_set_col)
  show "length (rows df2) = length (rows df)"
    unfolding e by (simp add: length_rows_set_col)
qed

subsection \<open>Gap filling, change columns and the index put back\<close>


lemma fill_gaps_labels: "map fst (entries (fill_gaps L ix)) = map fst (entries ix)"
  by (simp add: fill_gaps_def Let_def labels_iset length_entries_iset)

lemma fill_gaps_length [simp]: "length (entries (fill_gaps L ix)) = length (entries ix)"
  by (simp add: fill_gaps_def Let_def length_entries_iset)

lemma fill_gaps_price:
  "iget (fill_gaps L ix) ''price'' = bfill (ffill (map (to_numeric L) (iget ix ''price'')))"
  by (simp add: fill_gaps_def Let_def iget_iset length_entries_iset)

lemma fill_gaps_other:
  "c \<noteq> ''price'' \<Longrightarrow> c \<noteq> ''symbol'' \<Longrightarrow> iget (fill_gaps L ix) c = iget ix c"
  by (simp add: fill_gaps_def Let_def iget_iset length_entries_iset)

lemma fill_gaps_icolumns:
  "icolumns (fill_gaps L ix) = with_column (with_column (icolumns ix) ''symbol'') ''price''"
  by (simp add: fill_gaps_def Let_def iset_def with_column_def)

lemma change_columns_labels: "map fst (entries (change_columns ix)) = map fst (entries ix)"
  by (simp add: change_columns_def Let_def labels_iset length_entries_iset)

lemma change_columns_length [simp]: "length (entries (change_columns ix)) = length (entries ix)"
  by (simp add: change_columns_def Let_def length_entries_iset)

lemma change_columns_price: "iget (change_columns ix) ''price'' = iget ix ''price''"
  by (simp add: change_columns_def Let_def iget_iset length_entries_iset)

lemma change_columns_daily:
  "iget (change_columns ix) ''Daily_Change_%'' = times (pct_change 1 (iget ix ''price'')) 100"
  by (simp add: change_columns_def Let_def iget_iset length_entries_iset)

lemma change_columns_weekly:
  "iget (change_columns ix) ''Weekly_Change_7d_%'' = times (pct_change 7 (iget ix ''price'')) 100"
  by (simp add: change_columns_def Let_def iget_iset length_entries_iset)

lemma change_columns_monthly:
  "iget (change_columns ix) ''Monthly_Change_30d_%'' = times (pct_change 30 (iget ix ''price'')) 100"
  by (simp add: change_columns_def Let_def iget_iset length_entries_iset)

lemma change_columns_icolumns:
  "icolumns (change_columns ix) =
     with_column (with_column (with_column (icolumns ix) ''Daily_Change_%'')
       ''Weekly_Change_7d_%'') ''Monthly_Change_30d_%''"
  by (simp add: change_columns_def Let_def iset_def)

lemma reset_index_Inr:
  assumes "reset_index ix name = Inr out"
  shows "name \<notin> set (icolumns ix)" and "columns out = name # icolumns ix"
    and "get_col out name = map (\<lambda>e. Stamp (fst e)) (entries ix)"
    and "\<And>c. c \<noteq> name \<Longrightarrow> get_col out c = iget ix c"
    and "length (rows out) = length (entries ix)"
  using assms
  by (auto simp: reset_index_def get_col_def iget_def split: if_splits prod.splits)

section \<open>A successful run of \<open>process_file\<close>\<close>


lemma clean_rows_stamped:
  assumes "convert_dates L w p df = (df2, w1)"
  shows "\<forall>r \<in> set (rows (clean df2)). \<exists>t. r ''date'' = Stamp t"
  using convert_dates_rows(1) [OF assms] by (auto simp: set_rows_clean)

lemma process_file_ok:
  assumes pf: "process_file L w p = Inr (Some out, w')"
  obtains df0 ix where
    "read_csv w p = Inr df0" "\<not> empty_frame df0"
    "{''date'', ''symbol'', ''price''} \<subseteq> set (columns (validate_and_fix_columns df0 p))"
    "surviving L w p \<noteq> []"
    "asfreq_D \<lparr>icolumns = filter (\<lambda>c. c \<noteq> ''date'') (columns (validate_and_fix_columns df0 p)),
               entries = surviving L w p\<rparr> = Inr ix"
    "reset_index (change_columns (fill_gaps L ix)) ''date'' = Inr out"
  using pf
proof (cases rule: process_file_cases)
  case (ok df0 df2 w1 ix out')
  have s: "surviving L w p = entries (set_index (clean df2) ''date'')"
    unfolding surviving_def ok(1) sum.case ok(4) fst_conv ..
  have "length (entries (set_index (clean df2) ''date'')) = length (rows (clean df2))"
    by (rule entries_set_index_stamped) (rule clean_rows_stamped [OF ok(4)])
  then have ne: "surviving L w p \<noteq> []" using ok(5) unfolding s by auto
  have c: "columns df2 = columns (validate_and_fix_columns df0 p)"
    using convert_dates_rows(3) [OF ok(4)] ok(3) by simp
  have si: "set_index (clean df2) ''date'' =
      \<lparr>icolumns = filter (\<lambda>c. c \<noteq> ''date'') (columns (validate_and_fix_columns df0 p)),
       entries = surviving L w p\<rparr>"
    unfolding s c [symmetric] by (simp add: set_index_def)
  have out: "out' = out" using ok(8) by simp
  show ?thesis
    using ok(1) ok(2) ok(3) ne ok(6) [unfolded si] ok(7) [unfolded out]
    by (rule that)
qed simp_all

text \<open>The index after a successful run.\<close>

lemma process_file_dates:
  assumes pf: "process_file L w p = Inr (Some out, w')"
  shows "surviving L w p \<noteq> []"
    and "distinct (map fst (surviving L w p))"
    and "get_col out ''date'' =
           map Stamp (date_range (Min (fst ` set (surviving L w p)))
                                 (Max (fst ` set (surviving L w p))))"
proof -
  from pf obtain df0 ix where
    ne: "surviving L w p \<noteq> []"
    and af: "asfreq_D \<lparr>icolumns = filter (\<lambda>c. c \<noteq> ''date'') (columns (validate_and_fix_columns df0 p)),
               entries = surviving L w p\<rparr> = Inr ix"
    and ri: "reset_index (change_columns (fill_gaps L ix)) ''date'' = Inr out"
    by (rule process_file_ok)
  show "surviving L w p \<noteq> []" by (rule ne)
  from asfreq_D_Inr(1) [OF af] ne show "distinct (map fst (surviving L w p))" by simp
  have "map fst (entries ix) = date_range (Min (fst ` set (surviving L w p)))
                                 (Max (fst ` set (surviving L w p)))"
    using asfreq_D_labels [OF af] ne by simp
  then have "map fst (entries (change_columns (fill_gaps L ix))) =
      date_range (Min (fst ` set (surviving L w p))) (Max (fst ` set (surviving L w p)))"
    by (simp add: change_columns_labels fill_gaps_labels)
  from arg_cong [OF this, of "map Stamp"]
  show "get_col out ''date'' =
           map Stamp (date_range (Min (fst ` set (surviving L w p)))
                                 (Max (fst ` set (surviving L w p))))"
    unfolding reset_index_Inr(3) [OF ri] by (simp add: comp_def)
qed

lemma result_column_SomeD:
  "result_column r c = Some xs \<Longrightarrow> \<exists>out w'. r = Inr (Some out, w') \<and> get_col out c = xs"
  by (auto simp: result_column_def split: sum.splits option.splits prod.splits)


lemma Min_le_Max_labels:
  "xs \<noteq> [] \<Longrightarrow> Min (fst ` set xs) \<le> Max (fst ` set xs)"
  by (simp add: Min_le_iff)

section \<open>The change columns of a returned frame\<close>

lemma round64_one: "round64 1 = Num 1"
  by code_simp

lemma change_unchanged:
  assumes "x \<noteq> 0"
  shows "fmul (fsub (fdiv (Num x) (Num x)) (Num 1)) (Num 100) = Num 0"
proof -
  have "fdiv (Num x) (Num x) = Num 1"
    using assms by (simp add: fdiv_def is_float_def is_inf_def is_zero_def value_of_def round64_one)
  moreover have "fsub (Num 1) (Num 1) = Num 0"
    by (simp add: fsub_def is_float_def is_inf_def is_zero_def value_of_def)
  moreover have "fmul (Num 0) (Num 100) = Num 0"
    by (simp add: fmul_def is_float_def is_inf_def is_zero_def negative_def signed_zero_def)
  ultimately show ?thesis by simp
qed

lemma spec_change_unchanged:
  assumes "0 < x"
  shows "spec_change (Num x) (Num x) = Num 0"
proof -
  have "fsub (Num x) (Num x) = Num 0"
    using assms by (simp add: fsub_def is_float_def is_inf_def is_zero_def value_of_def)
  moreover have "fdiv (Num 0) (Num x) = Num 0"
    using assms
    by (simp add: fdiv_def is_float_def is_inf_def is_zero_def negative_def signed_zero_def)
  moreover have "fmul (Num 0) (Num 100) = Num 0"
    by (simp add: fmul_def is_float_def is_inf_def is_zero_def negative_def signed_zero_def)
  ultimately show ?thesis by (simp add: spec_change_def)
qed

lemma nth_times_pct:
  "t < length xs \<Longrightarrow>
   times (pct_change n xs) 100 ! t =
     (if t < n then Null else fmul (fsub (fdiv (xs ! t) (xs ! (t - n))) (Num 1)) (Num 100))"
  by (simp add: times_def pct_change_def fmul_def is_float_def)

lemma process_file_changes:
  assumes pf: "process_file L w p = Inr (Some out, w')"
  shows "get_col out ''Daily_Change_%'' = times (pct_change 1 (get_col out ''price'')) 100"
    and "get_col out ''Weekly_Change_7d_%'' = times (pct_change 7 (get_col out ''price'')) 100"
    and "get_col out ''Monthly_Change_30d_%'' = times (pct_change 30 (get_col out ''price'')) 100"
proof -
  from pf obtain df0 ix where
    af: "asfreq_D \<lparr>icolumns = filter (\<lambda>c. c \<noteq> ''date'') (columns (validate_and_fix_columns df0 p)),
               entries = surviving L w p\<rparr> = Inr ix"
    and ri: "reset_index (change_columns (fill_gaps L ix)) ''date'' = Inr out"
    by (rule process_file_ok)
  have pr: "get_col out ''price'' = iget (fill_gaps L ix) ''price''"
    using reset_index_Inr(4) [OF ri, of "''price''"] by (simp add: change_columns_price)
  show "get_col out ''Daily_Change_%'' = times (pct_change 1 (get_col out ''price'')) 100"
    using reset_index_Inr(4) [OF ri, of "''Daily_Change_%''"]
    by (simp add: pr change_columns_daily)
  show "get_col out ''Weekly_Change_7d_%'' = times (pct_change 7 (get_col out ''price'')) 100"
    using reset_index_Inr(4) [OF ri, of "''Weekly_Change_7d_%''"]
    by (simp add: pr change_columns_weekly)
  show "get_col out ''Monthly_Change_30d_%'' = times (pct_change 30 (get_col out ''price'')) 100"
    using reset_index_Inr(4) [OF ri, of "''Monthly_Change_30d_%''"]
    by (simp add: pr change_columns_monthly)
qed


section \<open>Columns of the processed frame\<close>

lemma columns_read_csv: "raw w p = Some (Csv header body) \<Longrightarrow> read_csv w p = Inr df \<Longrightarrow> columns df = header"
  by (auto simp: read_csv_def)

lemma with_column_member: "c \<in> set cs \<Longrightarrow> with_column cs c = cs"
  by (simp add: with_column_def)

lemma set_with_column: "set (with_column cs c) = insert c (set cs)"
  by (auto simp: with_column_def)

lemma process_file_store:
  assumes "process_file L w p = Inr (r, w')"
  shows "written w' = written w" and "unwritable w' = unwritable w" and "raw w' = raw w"
  using assms
  by (cases rule: process_file_cases; auto dest!: convert_dates_log)+

lemma process_file_columns:
  assumes pf: "process_file L w p = Inr (Some out, w')"
      and rw: "raw w p = Some (Csv header body)"
  shows "columns out =
     ''date'' # with_column (with_column (with_column
        (filter (\<lambda>c. c \<noteq> ''date'') (normalised_columns header))
        ''Daily_Change_%'') ''Weekly_Change_7d_%'') ''Monthly_Change_30d_%''"
    and "rows out \<noteq> []"
proof -
  from pf obtain df0 ix where
    rd: "read_csv w p = Inr df0"
    and cols: "{''date'', ''symbol'', ''price''} \<subseteq> set (columns (validate_and_fix_columns df0 p))"
    and ne: "surviving L w p \<noteq> []"
    and af: "asfreq_D \<lparr>icolumns = filter (\<lambda>c. c \<noteq> ''date'') (columns (validate_and_fix_columns df0 p)),
               entries = surviving L w p\<rparr> = Inr ix"
    and ri: "reset_index (change_columns (fill_gaps L ix)) ''date'' = Inr out"
    by (rule process_file_ok)
  have n: "columns (validate_and_fix_columns df0 p) = normalised_columns header"
    unfolding columns_validate normalised_columns_def columns_read_csv [OF rw rd] ..
  have ic: "icolumns ix = filter (\<lambda>c. c \<noteq> ''date'') (normalised_columns header)"
    using asfreq_D_Inr(3) [OF af] ne by (simp add: n)
  have m: "''symbol'' \<in> set (icolumns ix)" "''price'' \<in> set (icolumns ix)"
    using cols unfolding ic n by auto
  have "icolumns (fill_gaps L ix) = icolumns ix"
    unfolding fill_gaps_icolumns using m by (simp add: with_column_member)
  then show "columns out =
     ''date'' # with_column (with_column (with_column
        (filter (\<lambda>c. c \<noteq> ''date'') (normalised_columns header))
        ''Daily_Change_%'') ''Weekly_Change_7d_%'') ''Monthly_Change_30d_%''"
    unfolding reset_index_Inr(2) [OF ri] change_columns_icolumns ic by simp
  have "get_col out ''date'' \<noteq> []"
    unfolding process_file_dates(3) [OF pf]
    using date_range_nonempty [OF Min_le_Max_labels [OF ne]] by simp
  then show "rows out \<noteq> []" by (auto simp: get_col_def)
qed


lemma process_file_change_columns:
  assumes pf: "process_file L w p = Inr (Some out, w')"
  shows "{''Daily_Change_%'', ''Weekly_Change_7d_%'', ''Monthly_Change_30d_%''} \<subseteq> set (columns out)"
proof -
  from pf obtain df0 :: frame and ix where
    ri: "reset_index (change_columns (fill_gaps L ix)) ''date'' = Inr out"
    by (rule process_file_ok)
  show ?thesis
    unfolding reset_index_Inr(2) [OF ri] change_columns_icolumns
    by (simp add: set_with_column)
qed

section \<open>The price column of the processed frame\<close>

lemma process_file_price:
  assumes pf: "process_file L w p = Inr (Some out, w')"
  shows "get_col out ''price'' =
     bfill (ffill (map (\<lambda>t. to_numeric L
        ((case map_of (surviving L w p) t of Some r \<Rightarrow> r | None \<Rightarrow> (\<lambda>_. Null)) ''price''))
        (date_range (Min (fst ` set (surviving L w p))) (Max (fst ` set (surviving L w p))))))"
proof -
  from pf obtain df0 ix where
    ne: "surviving L w p \<noteq> []"
    and af: "asfreq_D \<lparr>icolumns = filter (\<lambda>c. c \<noteq> ''date'') (columns (validate_and_fix_columns df0 p)),
               entries = surviving L w p\<rparr> = Inr ix"
    and ri: "reset_index (change_columns (fill_gaps L ix)) ''date'' = Inr out"
    by (rule process_file_ok)
  have pr: "get_col out ''price'' = iget (fill_gaps L ix) ''price''"
    using reset_index_Inr(4) [OF ri, of "''price''"] by (simp add: change_columns_price)
  have e: "entries ix =
           map (\<lambda>t. (t, case map_of (surviving L w p) t of Some r \<Rightarrow> r | None \<Rightarrow> (\<lambda>_. Null)))
               (date_range (Min (fst ` set (surviving L w p))) (Max (fst ` set (surviving L w p))))"
    using asfreq_D_Inr(2) [OF af] ne by simp
  show ?thesis
    unfolding pr fill_gaps_price by (simp add: iget_def e comp_def)
qed

lemma process_file_price_filled:
  assumes pf: "process_file L w p = Inr (Some out, w')"
    and mem: "(t, r) \<in> set (surviving L w p)"
    and grid: "(t - Min (fst ` set (surviving L w p))) mod one_day = 0"
    and num: "to_numeric L (r ''price'') \<noteq> Null"
  shows "Null \<notin> set (get_col out ''price'')"
proof -
  let ?S = "fst ` set (surviving L w p)"
  have fin: "finite ?S" by simp
  have tS: "t \<in> ?S" using mem by force
  have "Min ?S \<le> t" "t \<le> Max ?S" using fin tS by simp_all
  with grid have tr: "t \<in> set (date_range (Min ?S) (Max ?S))"
    by (simp add: in_date_range_iff)
  have "map_of (surviving L w p) t = Some r"
    using process_file_dates(2) [OF pf] mem by simp
  then have "to_numeric L (r ''price'') \<in>
      set (map (\<lambda>t. to_numeric L
        ((case map_of (surviving L w p) t of Some r \<Rightarrow> r | None \<Rightarrow> (\<lambda>_. Null)) ''price''))
        (date_range (Min ?S) (Max ?S)))"
    using tr by force
  with num show ?thesis
    unfolding process_file_price [OF pf] by (intro bfill_ffill_no_null) blast
qed

lemma process_file_no_rows:
  assumes rd: "read_csv w p = Inr df0"
    and cd: "convert_dates L w p (validate_and_fix_columns df0 p) = (df2, w1)"
    and nr: "rows (clean df2) = []"
  shows "\<exists>w'. process_file L w p = Inr (None, w') \<and> written w' = written w"
proof -
  have w1: "written w1 = written w" using convert_dates_log [OF cd] by auto
  show ?thesis
    unfolding process_file_def rd sum.case Let_def cd prod.case nr
    using w1 by simp
qed

lemma process_file_null_price:
  assumes rd: "read_csv w p = Inr df0"
    and np: "\<forall>c \<in> set (get_col (validate_and_fix_columns df0 p) ''price''). c = Null"
  shows "\<exists>w'. process_file L w p = Inr (None, w') \<and> written w' = written w"
proof -
  obtain df2 w1 where cd: "convert_dates L w p (validate_and_fix_columns df0 p) = (df2, w1)"
    by (cases "convert_dates L w p (validate_and_fix_columns df0 p)")
  have "r ''price'' = Null" if "r \<in> set (rows df2)" for r
  proof -
    from convert_dates_rows(2) [OF cd] that obtain r0 where
      "r0 \<in> set (rows (validate_and_fix_columns df0 p))" "r ''price'' = r0 ''price''"
      by force
    then show ?thesis using np by (auto simp: get_col_def)
  qed
  then have "set (rows (clean df2)) = {}" unfolding set_rows_clean by blast
  then have "rows (clean df2) = []" by simp
  from process_file_no_rows [OF rd cd this] show ?thesis .
qed

lemma save_processed_None: "written (save_processed w None f) = written w"
  by (simp add: save_processed_def)


text \<open>Forward-filling the price of the output once more changes nothing.\<close>


lemma ffill_from_present: "Null \<notin> set xs \<Longrightarrow> ffill_from p xs = xs"
  by (induction xs arbitrary: p) auto

lemma ffill_from_absent: "\<forall>c \<in> set xs. c = Null \<Longrightarrow> ffill_from Null xs = xs"
  by (induction xs) auto

lemma ffill_filled: "ffill (bfill (ffill xs)) = bfill (ffill xs)"
proof (cases "\<exists>c \<in> set xs. c \<noteq> Null")
  case True
  then show ?thesis
    unfolding ffill_def [of "bfill (ffill xs)"]
    by (intro ffill_from_present bfill_ffill_no_null)
next
  case False
  then have "\<forall>c \<in> set (bfill (ffill xs)). c = Null"
    by (intro bfill_ffill_all_null) simp
  then show ?thesis
    unfolding ffill_def [of "bfill (ffill xs)"] by (rule ffill_from_absent)
qed

lemma process_file_price_padded:
  assumes "process_file L w p = Inr (Some out, w')"
  shows "ffill (get_col out ''price'') = get_col out ''price''"
  unfolding process_file_price [OF assms] by (rule ffill_filled)

section \<open>The paths through \<open>forecast_one_symbol\<close>\<close>

lemma to_numeric_arima [simp]: "to_numeric (L\<lparr>arima := A\<rparr>) = to_numeric L"
  by (rule ext) (simp add: to_numeric_def split: cell.splits)

lemma align_series_arima [simp]: "align_series (L\<lparr>arima := A\<rparr>) df = align_series L df"
  by (simp add: align_series_def Let_def split: option.splits sum.splits)

lemma prepare_series_arima [simp]: "prepare_series (L\<lparr>arima := A\<rparr>) w df = prepare_series L w df"
  by (simp add: prepare_series_def)

lemma prepare_series_short:
  assumes "{''date'', ''price''} \<subseteq> set (columns df)" and "align_series L df = Inr s"
    and "length (filter (\<lambda>c. c \<noteq> Null) (iget s ''price'')) < 20"
  shows "prepare_series L w df = Inr (None, say w NotEnoughData)"
  using assms by (simp add: prepare_series_def)

lemma prepare_series_long:
  assumes "{''date'', ''price''} \<subseteq> set (columns df)" and "align_series L df = Inr s"
    and "20 \<le> length (filter (\<lambda>c. c \<noteq> Null) (iget s ''price''))"
  shows "prepare_series L w df = Inr (Some (zip (map fst (entries s)) (iget s ''price'')), w)"
  using assms by (simp add: prepare_series_def)

lemma forecast_short:
  assumes "{''date'', ''price''} \<subseteq> set (columns df)" and "align_series L df = Inr s"
    and "length (filter (\<lambda>c. c \<noteq> Null) (iget s ''price'')) < 20"
  shows "forecast_one_symbol L w symbol df =
           Inr (None, say (say w NotEnoughData) (SkippingForecast symbol))"
  unfolding forecast_one_symbol_def prepare_series_short [OF assms] by simp


lemma aligned_countD:
  "aligned_count L df = Some n \<Longrightarrow>
   \<exists>s. align_series L df = Inr s \<and> length (filter (\<lambda>c. c \<noteq> Null) (iget s ''price'')) = n"
  by (auto simp: aligned_count_def split: sum.splits)


lemma get_col_forecast_rows:
  "get_col \<lparr>columns = cs, rows = map (forecast_row symbol) fc\<rparr> ''date'' = map (\<lambda>e. Stamp (fst e)) fc"
  by (auto simp: get_col_def forecast_row_def split: prod.splits)

lemma forecast_long_cases:
  assumes cols: "{''date'', ''price''} \<subseteq> set (columns df)"
    and al: "align_series L df = Inr s"
    and big: "20 \<le> length (filter (\<lambda>c. c \<noteq> Null) (iget s ''price''))"
    and y: "y = zip (map fst (entries s)) (iget s ''price'')"
    and path: "path = os_path_join (FORECAST_DIR w) (''forecast_'' @ symbol @ ''.csv'')"
  shows "forecast_one_symbol L w symbol df =
     (case arima L y ARIMA_ORDER FORECAST_STEPS of
        None \<Rightarrow> Inr (None, say w (ForecastFailed symbol))
      | Some fc \<Rightarrow>
          if unwritable w path then Inr (None, say w (ForecastFailed symbol))
          else Inr (Some \<lparr>columns = [''date'', ''symbol'', ''forecast'', ''ci_lower'', ''ci_upper''],
                          rows = map (forecast_row symbol) fc\<rparr>,
                    say (w\<lparr>written := (written w)(path \<mapsto>
                           \<lparr>columns = [''date'', ''symbol'', ''forecast'', ''ci_lower'', ''ci_upper''],
                            rows = map (forecast_row symbol) fc\<rparr>)\<rparr>) (ForecastSaved path)))"
  unfolding forecast_one_symbol_def prepare_series_long [OF cols al big] y path
  by (simp add: Let_def split: option.splits)

lemma last_zip_labels:
  assumes "length (filter P (iget s c)) \<ge> 20"
  shows "zip (map fst (entries s)) (iget s c) \<noteq> []"
    and "fst (last (zip (map fst (entries s)) (iget s c))) = fst (last (entries s))"
proof -
  have "iget s c \<noteq> []" using assms by auto
  then have ne: "entries s \<noteq> []" by (auto simp: iget_def)
  then show "zip (map fst (entries s)) (iget s c) \<noteq> []"
    by (cases "entries s") (auto simp: iget_def)
  have "zip (map fst (entries s)) (iget s c) = map (\<lambda>e. (fst e, snd e c)) (entries s)"
    by (simp add: iget_def zip_map_map zip_same_conv_map split_def)
  then show "fst (last (zip (map fst (entries s)) (iget s c))) = fst (last (entries s))"
    using ne by (simp add: last_map)
qed

lemma aligned_seriesD:
  "align_series L df = Inr s \<Longrightarrow> aligned_series L df = zip (map fst (entries s)) (iget s ''price'')"
  by (simp add: aligned_series_def)



lemma get_col_forecast_values:
  "get_col \<lparr>columns = cs, rows = map (forecast_row symbol) fc\<rparr> ''forecast''
     = map (\<lambda>(d, m, lo, hi). m) fc"
  "get_col \<lparr>columns = cs, rows = map (forecast_row symbol) fc\<rparr> ''ci_lower''
     = map (\<lambda>(d, m, lo, hi). lo) fc"
  "get_col \<lparr>columns = cs, rows = map (forecast_row symbol) fc\<rparr> ''ci_upper''
     = map (\<lambda>(d, m, lo, hi). hi) fc"
  by (auto simp: get_col_def forecast_row_def split: prod.splits)

lemma forecast_row_interval:
  "fle (forecast_row symbol e ''ci_lower'') (forecast_row symbol e ''forecast'')
     \<and> fle (forecast_row symbol e ''forecast'') (forecast_row symbol e ''ci_upper'')
   \<longleftrightarrow> (case e of (d, m, lo, hi) \<Rightarrow> fle lo m \<and> fle m hi)"
  by (simp add: forecast_row_def split: prod.splits)

section \<open>Column normalisation (C8, C10)\<close>

text \<open>
  C8. The columns after \<open>validate_and_fix_columns\<close> are those of the specification's
  alias resolution: the first column whose lower-cased name is in \<open>{date, datetime}\<close>
  is renamed to \<open>date\<close> only when no column is named exactly \<open>date\<close>, likewise
  for \<open>{price, close, adj close}\<close> and \<open>price\<close>; the renamed column carries the
  values of the match, and a column already named \<open>date\<close> or \<open>price\<close> keeps its
  values. A table with the columns \<open>Datetime\<close> and \<open>Close\<close> comes out with the
  columns \<open>date\<close>, \<open>price\<close>, \<open>symbol\<close>.
\<close>

theorem column_aliases_resolved:
  "columns (validate_and_fix_columns df p) = normalised_columns (columns df)
   \<and> (''date'' \<notin> set (columns df) \<longrightarrow>
        find (\<lambda>c. lower c \<in> {''date'', ''datetime''}) (columns df) = Some md \<longrightarrow>
        get_col (validate_and_fix_columns df p) ''date'' = get_col df md)
   \<and> (''date'' \<in> set (columns df) \<longrightarrow>
        get_col (validate_and_fix_columns df p) ''date'' = get_col df ''date'')
   \<and> (''price'' \<notin> set (columns df) \<longrightarrow>
        find (\<lambda>c. lower c \<in> {''price'', ''close'', ''adj close''}) (columns df) = Some mp \<longrightarrow>
        get_col (validate_and_fix_columns df p) ''price'' = get_col df mp)
   \<and> (''price'' \<in> set (columns df) \<longrightarrow>
        get_col (validate_and_fix_columns df p) ''price'' = get_col df ''price'')
   \<and> (columns df = [''Datetime'', ''Close''] \<longrightarrow>
        columns (validate_and_fix_columns df p) = [''date'', ''price'', ''symbol'']
        \<and> get_col (validate_and_fix_columns df p) ''date'' = get_col df ''Datetime''
        \<and> get_col (validate_and_fix_columns df p) ''price'' = get_col df ''Close'')"
proof -
  have ex: "columns (validate_and_fix_columns df p) = [''date'', ''price'', ''symbol'']
        \<and> get_col (validate_and_fix_columns df p) ''date'' = get_col df ''Datetime''
        \<and> get_col (validate_and_fix_columns df p) ''price'' = get_col df ''Close''"
    if c: "columns df = [''Datetime'', ''Close'']"
  proof -
    note l = lower_lits
    have "find (\<lambda>c. lower c \<in> {''date'', ''datetime''}) (columns df) = Some ''Datetime''"
      by (simp add: c l)
    moreover have "find (\<lambda>c. lower c \<in> {''price'', ''close'', ''adj close''}) (columns df) = Some ''Close''"
      by (simp add: c l)
    moreover have "columns (validate_and_fix_columns df p) = [''date'', ''price'', ''symbol'']"
      by (simp add: columns_validate c resolve_alias_def l)
    ultimately show ?thesis
      using get_col_date_validate [of df "''Datetime''" p]
        get_col_price_validate [of df "''Close''" p] c by simp
  qed
  show ?thesis
    using columns_validate [of df p, folded normalised_columns_def]
      get_col_date_validate [of df md p]
      get_col_date_kept [of df p] get_col_price_validate [of df mp p]
      get_col_price_kept [of df p] ex
    by blast
qed

theorem column_aliases_resolved_witness:
  "''date'' \<notin> set (columns aliased_frame) \<and> ''price'' \<notin> set (columns aliased_frame)
   \<and> find (\<lambda>c. lower c \<in> {''date'', ''datetime''}) (columns aliased_frame) = Some ''Datetime''
   \<and> find (\<lambda>c. lower c \<in> {''price'', ''close'', ''adj close''}) (columns aliased_frame) = Some ''Close''
   \<and> columns (validate_and_fix_columns aliased_frame ''data/raw/BTC.csv'') = [''date'', ''price'', ''symbol'']
   \<and> get_col (validate_and_fix_columns aliased_frame ''data/raw/BTC.csv'') ''date'' = [Num 0]
   \<and> get_col (validate_and_fix_columns aliased_frame ''data/raw/BTC.csv'') ''price'' = [Num 10]"
proof -
  note l = lower_lits
  have c: "columns aliased_frame = [''Datetime'', ''Close'']"
    by (simp add: aliased_frame_def)
  have g: "get_col aliased_frame ''Datetime'' = [Num 0]" "get_col aliased_frame ''Close'' = [Num 10]"
    by (simp_all add: aliased_frame_def get_col_def)
  show ?thesis
    using column_aliases_resolved [of aliased_frame "''data/raw/BTC.csv''" "''Datetime''" "''Close''"]
    by (simp add: c g l resolve_alias_def normalised_columns_def)
qed


text \<open>
  C10. After \<open>validate_and_fix_columns\<close> a \<open>symbol\<close> column is always present: when
  the table had none, every row gets the base name of the file without its extension,
  otherwise the column is left as it was. Hence a missing-column message of
  \<open>process_file\<close> names \<open>date\<close> or \<open>price\<close> only, never \<open>symbol\<close>.
\<close>

theorem symbol_always_present:
  "''symbol'' \<in> set (columns (validate_and_fix_columns df p))
   \<and> (''symbol'' \<notin> set (columns df) \<longrightarrow>
        get_col (validate_and_fix_columns df p) ''symbol'' =
          replicate (length (rows df)) (Txt (splitext_root (basename p))))
   \<and> (''symbol'' \<in> set (columns df) \<longrightarrow>
        get_col (validate_and_fix_columns df p) ''symbol'' = get_col df ''symbol'')
   \<and> (process_file L w p = Inr (r, w') \<longrightarrow>
        (\<exists>evs. log w' = log w @ evs \<and>
           (\<forall>f ms cs. MissingColumns f ms cs \<in> set evs \<longrightarrow>
              ms \<noteq> [] \<and> set ms \<subseteq> {''date'', ''price''})))"
  using symbol_in_validate [of df p] get_col_symbol_validate [of df p]
    get_col_symbol_kept [of df p] process_file_log [of L w p r w']
  unfolding infer_symbol_from_filename_def by blast

text \<open>A file without a price column: the failure names \<open>price\<close> only.\<close>

lemma no_price_run:
  "process_file sample_lib no_price_world ''data/raw/BTC.csv'' =
     Inr (None, say no_price_world
       (MissingColumns ''data/raw/BTC.csv'' [''price''] [''date'', ''volume'', ''symbol'']))"
proof -
  have rd: "read_csv no_price_world ''data/raw/BTC.csv'' =
      Inr \<lparr>columns = [''date'', ''volume''],
           rows = map (\<lambda>r c. if c \<in> set [''date'', ''volume''] then of_csv (r c) else Null)
                      [csv_row [(''date'', midnight 0), (''volume'', Number 5)]]\<rparr>"
    by (simp add: read_csv_def no_price_world_def sample_world_def)
  have cols: "columns (validate_and_fix_columns \<lparr>columns = [''date'', ''volume''],
           rows = map (\<lambda>r c. if c \<in> set [''date'', ''volume''] then of_csv (r c) else Null)
                      [csv_row [(''date'', midnight 0), (''volume'', Number 5)]]\<rparr> ''data/raw/BTC.csv'')
      = [''date'', ''volume'', ''symbol'']"
  proof -
    have "lower ''volume'' = ''volume''" by code_simp
    then show ?thesis
      by (simp add: columns_validate resolve_alias_def lower_lits)
  qed
  show ?thesis
    unfolding process_file_def rd sum.case Let_def cols
    by (simp add: empty_frame_def)
qed

theorem symbol_always_present_witness:
  "''symbol'' \<notin> set (columns aliased_frame)
   \<and> get_col (validate_and_fix_columns aliased_frame ''data/raw/BTC.csv'') ''symbol'' = [Txt ''BTC'']
   \<and> process_file sample_lib no_price_world ''data/raw/BTC.csv'' =
       Inr (None, say no_price_world
         (MissingColumns ''data/raw/BTC.csv'' [''price''] [''date'', ''volume'', ''symbol'']))
   \<and> set [''price''] \<subseteq> {''date'', ''price''}"
proof -
  have b: "splitext_root (basename ''data/raw/BTC.csv'') = ''BTC''"
    by code_simp
  have c: "columns aliased_frame = [''Datetime'', ''Close'']" "length (rows aliased_frame) = 1"
    by (simp_all add: aliased_frame_def)
  show ?thesis
    using symbol_always_present [of aliased_frame "''data/raw/BTC.csv''" sample_lib no_price_world
        None "say no_price_world
         (MissingColumns ''data/raw/BTC.csv'' [''price''] [''date'', ''volume'', ''symbol''])"]
      no_price_run
    by (simp add: b c)
qed

section \<open>Calendar of the processed output (C3)\<close>

text \<open>
  C3, as amended. When \<open>process_file\<close> returns a frame, its dates are the least
  surviving timestamp \<open>lo\<close> and then every 24 hours up to the greatest surviving
  timestamp \<open>hi\<close>: strictly increasing, without repetition, each entry exactly one day
  after the one before. The last date is the last such step not after \<open>hi\<close>; it is
  \<open>hi\<close> itself when \<open>hi - lo\<close> is a whole number of days, as it is when every
  timestamp is at midnight.
\<close>

theorem output_dates_daily_grid:
  assumes "process_file L w p = Inr (Some out, w')"
      and "lo = Min (fst ` set (surviving L w p))"
      and "hi = Max (fst ` set (surviving L w p))"
  shows "get_col out ''date'' = map Stamp (date_range lo hi)
    \<and> lo \<le> hi \<and> date_range lo hi \<noteq> [] \<and> hd (date_range lo hi) = lo
    \<and> sorted_wrt (<) (date_range lo hi) \<and> distinct (get_col out ''date'')
    \<and> (\<forall>i. Suc i < length (date_range lo hi) \<longrightarrow>
           date_range lo hi ! Suc i = date_range lo hi ! i + one_day)
    \<and> last (date_range lo hi) \<le> hi \<and> hi < last (date_range lo hi) + one_day
    \<and> ((hi - lo) mod one_day = 0 \<longrightarrow> last (date_range lo hi) = hi)"
proof -
  note d = process_file_dates [OF assms(1)]
  have le: "lo \<le> hi"
    unfolding assms(2,3) using d(1) by (rule Min_le_Max_labels)
  have g: "get_col out ''date'' = map Stamp (date_range lo hi)"
    unfolding assms(2,3) by (rule d(3))
  have "distinct (map Stamp (date_range lo hi))"
    using distinct_date_range [of lo hi] by (simp add: distinct_map inj_on_def)
  then show ?thesis
    using le g date_range_nonempty [OF le] hd_date_range [OF le] sorted_date_range [of lo hi]
      step_date_range [of _ lo hi] last_date_range_bounds [OF le]
    by simp
qed

theorem output_dates_daily_grid_witness:
  "Min (fst ` set (surviving sample_lib gap_world ''data/raw/BTC.csv'')) = 0
   \<and> Max (fst ` set (surviving sample_lib gap_world ''data/raw/BTC.csv'')) = 2 * one_day
   \<and> result_column (process_file sample_lib gap_world ''data/raw/BTC.csv'') ''date''
       = Some (map Stamp (date_range 0 (2 * one_day)))
   \<and> date_range 0 (2 * one_day) = [0, one_day, 2 * one_day]
   \<and> last (date_range 0 (2 * one_day)) = 2 * one_day"
proof -
  have lo: "0 = Min (fst ` set (surviving sample_lib gap_world ''data/raw/BTC.csv''))"
    by code_simp
  have hi: "2 * one_day = Max (fst ` set (surviving sample_lib gap_world ''data/raw/BTC.csv''))"
    by code_simp
  have "result_column (process_file sample_lib gap_world ''data/raw/BTC.csv'') ''date''
          = Some [Stamp 0, Stamp one_day, Stamp (2 * one_day)]"
    by code_simp
  then obtain out w' where
    run: "process_file sample_lib gap_world ''data/raw/BTC.csv'' = Inr (Some out, w')"
    using result_column_SomeD by blast
  have dr: "date_range 0 (2 * one_day) = [0, one_day, 2 * one_day]"
    by code_simp
  have m: "(2 * one_day - 0) mod one_day = 0" by simp
  from output_dates_daily_grid [OF run lo hi] m lo hi dr
  show ?thesis
    by (simp add: result_column_def run)
qed

text \<open>
  A file with a row at 18:00 of day 0 and a row at 06:00 of day 2: the output has the
  dates 18:00 of day 0 and 18:00 of day 1. The greatest surviving timestamp is not
  among them, and neither is any timestamp of its calendar day.
\<close>

theorem output_dates_exact_range_counterexample:
  "map fst (surviving sample_lib off_midnight_world ''data/raw/BTC.csv'')
     = [64800000000000, 194400000000000]
   \<and> result_column (process_file sample_lib off_midnight_world ''data/raw/BTC.csv'') ''date''
       = Some [Stamp 64800000000000, Stamp 151200000000000]
   \<and> Stamp 194400000000000 \<notin> set [Stamp 64800000000000, Stamp 151200000000000]
   \<and> map (\<lambda>t. t div one_day) [64800000000000, 194400000000000] = [0, 2]
   \<and> map (\<lambda>t. t div one_day) [64800000000000, 151200000000000] = [0, 1]"
  by code_simp

section \<open>Change columns (C4)\<close>

text \<open>
  C4, as amended. In every frame that \<open>process_file\<close> returns, each of the daily,
  weekly and monthly change columns (lags 1, 7 and 30) is a column of the frame, is
  missing at the positions before its lag, and at every other position \<open>t\<close> is the
  double that \<open>pct_change\<close> computes, \<open>(price[t] / price[t - lag] - 1) * 100\<close>, each
  of the three operations rounded to a double. Where the price is the same non-zero
  number at both positions, that is 0, and for a positive price so is the formula of the
  specification, \<open>(price[t] - price[t - lag]) / price[t - lag] * 100\<close>.
\<close>

theorem change_columns_formula:
  assumes pf: "process_file L w p = Inr (Some out, w')"
    and nl: "(name, lag) \<in> {(''Daily_Change_%'', 1), (''Weekly_Change_7d_%'', 7),
                           (''Monthly_Change_30d_%'', 30)}"
    and t: "t < length (rows out)"
    and P: "P = get_col out ''price''"
  shows "name \<in> set (columns out)
    \<and> length (get_col out name) = length (rows out)
    \<and> (t < lag \<longrightarrow> get_col out name ! t = Null)
    \<and> (lag \<le> t \<longrightarrow>
         get_col out name ! t = fmul (fsub (fdiv (P ! t) (P ! (t - lag))) (Num 1)) (Num 100))
    \<and> (lag \<le> t \<longrightarrow> x \<noteq> 0 \<longrightarrow> P ! t = Num x \<longrightarrow> P ! (t - lag) = Num x \<longrightarrow>
         get_col out name ! t = Num 0)
    \<and> (lag \<le> t \<longrightarrow> 0 < x \<longrightarrow> P ! t = Num x \<longrightarrow> P ! (t - lag) = Num x \<longrightarrow>
         spec_change (P ! t) (P ! (t - lag)) = Num 0)"
proof -
  note c = process_file_changes [OF pf]
  have col: "get_col out name = times (pct_change lag P) 100"
    using nl c unfolding P by auto
  have tP: "t < length P" using t by (simp add: P)
  have v: "get_col out name ! t =
      (if t < lag then Null
       else fmul (fsub (fdiv (P ! t) (P ! (t - lag))) (Num 1)) (Num 100))"
    unfolding col by (rule nth_times_pct [OF tP])
  have "name \<in> set (columns out)"
    using process_file_change_columns [OF pf] nl by auto
  moreover have "length (get_col out name) = length (rows out)" by simp
  moreover have "t < lag \<longrightarrow> get_col out name ! t = Null" by (simp add: v)
  moreover have "lag \<le> t \<longrightarrow>
         get_col out name ! t = fmul (fsub (fdiv (P ! t) (P ! (t - lag))) (Num 1)) (Num 100)"
    by (simp add: v)
  moreover have "lag \<le> t \<longrightarrow> x \<noteq> 0 \<longrightarrow> P ! t = Num x \<longrightarrow> P ! (t - lag) = Num x \<longrightarrow>
         get_col out name ! t = Num 0"
    using change_unchanged [of x] by (simp add: v)
  moreover have "lag \<le> t \<longrightarrow> 0 < x \<longrightarrow> P ! t = Num x \<longrightarrow> P ! (t - lag) = Num x \<longrightarrow>
         spec_change (P ! t) (P ! (t - lag)) = Num 0"
    using spec_change_unchanged [of x] by simp
  ultimately show ?thesis by blast
qed

theorem change_columns_formula_witness:
  "result_column (process_file sample_lib steady_world ''data/raw/BTC.csv'') ''price''
     = Some [Num 10, Num 10, Num 12]
   \<and> result_column (process_file sample_lib steady_world ''data/raw/BTC.csv'') ''Daily_Change_%''
     = Some [Null, Num 0, Num (5629499534213119 / 281474976710656)]"
proof -
  have pr: "result_column (process_file sample_lib steady_world ''data/raw/BTC.csv'') ''price''
     = Some [Num 10, Num 10, Num 12]"
    by code_simp
  then obtain out w' where
    run: "process_file sample_lib steady_world ''data/raw/BTC.csv'' = Inr (Some out, w')"
    and P: "[Num 10, Num 10, Num 12] = get_col out ''price''"
    using result_column_SomeD by metis
  have len: "length (rows out) = 3"
    using arg_cong [OF P, of length] by simp
  have m: "(''Daily_Change_%'', 1::nat) \<in> {(''Daily_Change_%'', 1), (''Weekly_Change_7d_%'', 7),
                           (''Monthly_Change_30d_%'', 30)}"
    by simp
  have t0: "(0::nat) < length (rows out)" and t1: "(1::nat) < length (rows out)"
    and t2: "(2::nat) < length (rows out)"
    by (simp_all add: len)
  have d: "fmul (fsub (fdiv (Num 12) (Num 10)) (Num 1)) (Num 100)
             = Num (5629499534213119 / 281474976710656)"
    by code_simp
  from change_columns_formula [OF run m t0 P, of 10]
  have e0: "get_col out ''Daily_Change_%'' ! 0 = Null" by (elim conjE) simp
  from change_columns_formula [OF run m t1 P, of 10]
  have e1: "get_col out ''Daily_Change_%'' ! 1 = Num 0" by (elim conjE) simp
  from change_columns_formula [OF run m t2 P, of 10]
  have e2: "get_col out ''Daily_Change_%'' ! 2 = Num (5629499534213119 / 281474976710656)"
    by (elim conjE) (simp add: d)
  have "xs = [xs ! 0, xs ! 1, xs ! 2]" if "length xs = 3" for xs :: "cell list"
    using that by (auto simp: length_Suc_conv numeral_3_eq_3)
  from this [of "get_col out ''Daily_Change_%''"]
  have "get_col out ''Daily_Change_%'' = [Null, Num 0, Num (5629499534213119 / 281474976710656)]"
    using e0 e1 e2 len by simp
  then show ?thesis
    using pr by (simp add: result_column_def run)
qed

text \<open>
  The prices \<open>10 ^ 16\<close>, \<open>10 ^ 16 + 2\<close>, \<open>inf\<close> and 10 on four days in a row. The
  daily change of the second day is \<open>100 / 2 ^ 52\<close>, about \<open>2.22e-14\<close>, where the
  formula of the specification gives the double next to \<open>2e-14\<close>, and the exact
  quotient is \<open>2e-14\<close>: they differ by more than a tenth. On the last day the change
  is \<open>-100\<close>, where the formula gives NaN. And with the prices 10 and 12 the change is
  the double below 20, where the formula gives 20.
\<close>

theorem change_formula_counterexample:
  "result_column (process_file sample_lib precision_world ''data/raw/BTC.csv'') ''price''
     = Some [Num (10 ^ 16), Num (10 ^ 16 + 2), Inf True, Num 10]
   \<and> result_column (process_file sample_lib precision_world ''data/raw/BTC.csv'') ''Daily_Change_%''
     = Some [Null, Num (100 / 2 ^ 52), Inf True, Num (- 100)]
   \<and> spec_change (Num (10 ^ 16 + 2)) (Num (10 ^ 16)) = Num (6338253001141147 / 2 ^ 98)
   \<and> \<bar>100 / 2 ^ 52 - 6338253001141147 / 2 ^ 98\<bar> > (6338253001141147 / 2 ^ 98) / (10::real)
   \<and> \<bar>100 / 2 ^ 52 - (10 ^ 16 + 2 - 10 ^ 16) / 10 ^ 16 * 100\<bar>
       > ((10 ^ 16 + 2 - 10 ^ 16) / 10 ^ 16 * 100) / (10::real)
   \<and> spec_change (Num 10) (Inf True) = Null
   \<and> fmul (fsub (fdiv (Num 12) (Num 10)) (Num 1)) (Num 100)
       = Num (5629499534213119 / 281474976710656)
   \<and> spec_change (Num 12) (Num 10) = Num 20"
  by code_simp

section \<open>Columns of the processed file (C9)\<close>

text \<open>
  C9, as amended. The frame that \<open>process_file\<close> returns, which \<open>save_processed\<close>
  writes as it is, has \<open>date\<close> as its first column, then the other columns of the raw
  file in their order after alias resolution (with \<open>symbol\<close> added last when the raw
  file had none), then the three change columns, each added at the end unless the raw
  file already had a column of that name. So the six named columns are always present,
  and they are exactly the columns, in the order claimed, when the raw header is
  \<open>date, symbol, price\<close>.
\<close>

theorem processed_columns:
  assumes "process_file L w p = Inr (Some out, w')"
      and "raw w p = Some (Csv header body)"
  shows "columns out =
       ''date'' # with_column (with_column (with_column
         (filter (\<lambda>c. c \<noteq> ''date'') (normalised_columns header))
         ''Daily_Change_%'') ''Weekly_Change_7d_%'') ''Monthly_Change_30d_%''
    \<and> {''date'', ''symbol'', ''price'', ''Daily_Change_%'', ''Weekly_Change_7d_%'',
        ''Monthly_Change_30d_%''} \<subseteq> set (columns out)
    \<and> (header = [''date'', ''symbol'', ''price''] \<longrightarrow>
         columns out = [''date'', ''symbol'', ''price'', ''Daily_Change_%'',
                        ''Weekly_Change_7d_%'', ''Monthly_Change_30d_%''])
    \<and> (\<not> unwritable w' (os_path_join PROCESSED_PATH f) \<longrightarrow>
         written (save_processed w' (Some out) f) (os_path_join PROCESSED_PATH f) = Some out)"
proof -
  note c = process_file_columns [OF assms]
  from assms(1) obtain df0 where
    rd: "read_csv w p = Inr df0"
    and cols: "{''date'', ''symbol'', ''price''} \<subseteq> set (columns (validate_and_fix_columns df0 p))"
    by (rule process_file_ok)
  have n: "columns (validate_and_fix_columns df0 p) = normalised_columns header"
    unfolding columns_validate normalised_columns_def columns_read_csv [OF assms(2) rd] ..
  have sub: "{''date'', ''symbol'', ''price'', ''Daily_Change_%'', ''Weekly_Change_7d_%'',
        ''Monthly_Change_30d_%''} \<subseteq> set (columns out)"
    using cols unfolding c(1) n by (auto simp: set_with_column)
  have canon: "columns out = [''date'', ''symbol'', ''price'', ''Daily_Change_%'',
                        ''Weekly_Change_7d_%'', ''Monthly_Change_30d_%'']"
    if "header = [''date'', ''symbol'', ''price'']"
    unfolding c(1) that
    by (simp add: normalised_columns_def resolve_alias_def with_column_def)
  have sv: "written (save_processed w' (Some out) f) (os_path_join PROCESSED_PATH f) = Some out"
    if "\<not> unwritable w' (os_path_join PROCESSED_PATH f)"
    using that c(2) c(1) by (simp add: save_processed_def empty_frame_def Let_def)
  show ?thesis using c(1) sub canon sv by blast
qed

theorem processed_columns_witness:
  "raw canonical_world ''data/raw/BTC.csv'' =
     Some (Csv [''date'', ''symbol'', ''price'']
        [csv_row [(''date'', midnight 0), (''symbol'', Text ''BTC''), (''price'', Number 10)]])
   \<and> written_columns (main sample_lib canonical_world) ''data/processed/BTC.csv''
     = Some [''date'', ''symbol'', ''price'', ''Daily_Change_%'', ''Weekly_Change_7d_%'',
             ''Monthly_Change_30d_%'']"
proof -
  have rw: "raw canonical_world ''data/raw/BTC.csv'' =
     Some (Csv [''date'', ''symbol'', ''price'']
        [csv_row [(''date'', midnight 0), (''symbol'', Text ''BTC''), (''price'', Number 10)]])"
    by (simp add: canonical_world_def sample_world_def)
  have "result_column (process_file sample_lib (say (say canonical_world (FoundRaw 1))
           (Processing ''data/raw/BTC.csv'')) ''data/raw/BTC.csv'') ''price'' = Some [Num 10]"
    by code_simp
  then obtain out w' where
    run: "process_file sample_lib (say (say canonical_world (FoundRaw 1))
           (Processing ''data/raw/BTC.csv'')) ''data/raw/BTC.csv'' = Inr (Some out, w')"
    using result_column_SomeD by metis
  have rw': "raw (say (say canonical_world (FoundRaw 1)) (Processing ''data/raw/BTC.csv''))
      ''data/raw/BTC.csv'' = Some (Csv [''date'', ''symbol'', ''price'']
        [csv_row [(''date'', midnight 0), (''symbol'', Text ''BTC''), (''price'', Number 10)]])"
    using rw by simp
  have uw: "\<not> unwritable w' (os_path_join PROCESSED_PATH ''BTC.csv'')"
    unfolding process_file_store(2) [OF run] by (simp add: canonical_world_def sample_world_def)
  have p: "os_path_join PROCESSED_PATH ''BTC.csv'' = ''data/processed/BTC.csv''"
    by code_simp
  have b: "basename ''data/raw/BTC.csv'' = ''BTC.csv''" by code_simp
  have f: "raw_files canonical_world = [''data/raw/BTC.csv'']"
    by (simp add: canonical_world_def sample_world_def)
  note th = processed_columns [OF run rw', of "''BTC.csv''", unfolded p]
  have A: "columns out = [''date'', ''symbol'', ''price'', ''Daily_Change_%'',
                        ''Weekly_Change_7d_%'', ''Monthly_Change_30d_%'']"
    using th by blast
  have B: "written (save_processed w' (Some out) ''BTC.csv'') ''data/processed/BTC.csv'' = Some out"
    using th uw [unfolded p] by blast
  show ?thesis
    using rw A B by (simp add: written_columns_def main_def f run [unfolded One_nat_def] b)
qed

text \<open>A raw file with a fourth column: the processed file keeps it.\<close>

theorem processed_columns_exact_counterexample:
  "written_columns (main sample_lib volume_world) ''data/processed/BTC.csv''
     = Some [''date'', ''symbol'', ''price'', ''Volume'', ''Daily_Change_%'',
             ''Weekly_Change_7d_%'', ''Monthly_Change_30d_%'']"
  by code_simp

section \<open>Filled prices (C5)\<close>

text \<open>
  C5, as amended. When \<open>process_file\<close> returns a frame and some surviving row lies on
  the daily steps from the least surviving timestamp and has a price that
  \<open>to_numeric\<close> reads as a number, no price of the output is missing. A raw file
  whose price values are all missing is rejected: \<open>process_file\<close> returns \<open>None\<close>
  and neither it nor \<open>save_processed\<close> writes anything.
\<close>

theorem price_filled_or_rejected:
  "(process_file L w p = Inr (Some out, w') \<longrightarrow>
      (t, r) \<in> set (surviving L w p) \<longrightarrow>
      (t - Min (fst ` set (surviving L w p))) mod one_day = 0 \<longrightarrow>
      to_numeric L (r ''price'') \<noteq> Null \<longrightarrow>
      Null \<notin> set (get_col out ''price''))
   \<and> (read_csv w p = Inr df0 \<longrightarrow>
      (\<forall>c \<in> set (get_col (validate_and_fix_columns df0 p) ''price''). c = Null) \<longrightarrow>
      (\<exists>w1. process_file L w p = Inr (None, w1) \<and> written w1 = written w
            \<and> written (save_processed w1 None f) = written w))"
  using process_file_price_filled [of L w p out w' t r]
    process_file_null_price [of w p df0 L] save_processed_None
  by metis

theorem price_filled_or_rejected_witness:
  "fst (hd (surviving sample_lib gap_world ''data/raw/BTC.csv'')) = 0
   \<and> to_numeric sample_lib (snd (hd (surviving sample_lib gap_world ''data/raw/BTC.csv'')) ''price'')
       = Num 10
   \<and> result_column (process_file sample_lib gap_world ''data/raw/BTC.csv'') ''price''
       = Some [Num 10, Num 10, Num 20]
   \<and> Null \<notin> set [Num 10, Num 10, Num 20]
   \<and> raw_column null_price_world ''data/raw/BTC.csv'' ''price'' = [Empty, Empty]
   \<and> returned_none (process_file sample_lib null_price_world ''data/raw/BTC.csv'')"
proof -
  let ?p = "''data/raw/BTC.csv''"
  let ?s = "surviving sample_lib gap_world ?p"
  have f: "fst (hd ?s) = 0" by code_simp
  have n: "to_numeric sample_lib (snd (hd ?s) ''price'') = Num 10" by code_simp
  have len: "length ?s = 2" by code_simp
  then have "?s \<noteq> []" by auto
  then have mem: "(0, snd (hd ?s)) \<in> set ?s"
    using hd_in_set [of ?s] f by (metis prod.collapse)
  have lo: "Min (fst ` set ?s) = 0" by code_simp
  have pr: "result_column (process_file sample_lib gap_world ?p) ''price''
       = Some [Num 10, Num 10, Num 20]"
    by code_simp
  then obtain out w' where
    run: "process_file sample_lib gap_world ?p = Inr (Some out, w')"
    and P: "get_col out ''price'' = [Num 10, Num 10, Num 20]"
    using result_column_SomeD by metis
  have rc: "raw_column null_price_world ?p ''price'' = [Empty, Empty]" by code_simp
  have "\<exists>df0. read_csv null_price_world ?p = Inr df0 \<and> columns df0 = [''date'', ''symbol'', ''price'']
           \<and> get_col df0 ''price'' = [Null, Null]"
    by (simp add: read_csv_def null_price_world_def sample_world_def get_col_def csv_row_def)
  then obtain df0 where rd: "read_csv null_price_world ?p = Inr df0"
    and c0: "columns df0 = [''date'', ''symbol'', ''price'']"
    and g0: "get_col df0 ''price'' = [Null, Null]"
    by blast
  have np: "\<forall>c \<in> set (get_col (validate_and_fix_columns df0 ?p) ''price''). c = Null"
    using get_col_price_kept [of df0 ?p] by (simp add: c0 g0)
  have m: "(0 - Min (fst ` set ?s)) mod one_day = 0" by (simp add: lo)
  from price_filled_or_rejected [where L = sample_lib and w = gap_world and p = ?p
      and out = out and w' = w' and t = 0 and r = "snd (hd ?s)"] run mem m n
  have A: "Null \<notin> set (get_col out ''price'')" by simp
  from price_filled_or_rejected [where L = sample_lib and w = null_price_world and p = ?p
      and ?df0.0 = df0] rd np
  obtain w1 where "process_file sample_lib null_price_world ?p = Inr (None, w1)"
    by blast
  then have B: "returned_none (process_file sample_lib null_price_world ?p)"
    by (simp add: returned_none_def)
  show ?thesis using f n pr A B rc P by simp
qed

text \<open>
  A raw file whose only price is text that is not a number: the price is not missing in
  the input, the row survives the cleaning, and the output price is missing.
\<close>

theorem price_filled_counterexample:
  "raw_column text_price_world ''data/raw/BTC.csv'' ''price'' = [Text ''abc'']
   \<and> result_column (process_file sample_lib text_price_world ''data/raw/BTC.csv'') ''price''
       = Some [Null]"
  by code_simp

section \<open>The minimum-data guard (C2)\<close>




section \<open>Forecast rows (C6)\<close>

text \<open>
  C6, as amended. Let \<open>n\<close> be the number of prices present in the aligned series of a
  symbol, \<open>y\<close> that series and \<open>path\<close> the forecast file of the symbol. With \<open>n\<close>
  below 20 the symbol is skipped and no row is produced. With 20 or more, a fit that
  raises, and a forecast file that cannot be written, are caught and give no row either.
  When the fit returns the steps \<open>fc\<close> and the file can be written,
  \<open>forecast_one_symbol\<close> returns a frame with one row for each step, dated as the
  step is, and that frame is written to the file; when the steps are the 30 days that
  follow the last date of \<open>y\<close>, as \<open>get_forecast(steps=30)\<close> numbers them on a daily
  index, the frame has exactly 30 rows, dated day by day from the day after the last
  aligned date.
\<close>

theorem forecast_rows:
  assumes cols: "{''date'', ''price''} \<subseteq> set (columns df)"
    and al: "align_series L df = Inr s"
    and n: "n = length (filter (\<lambda>c. c \<noteq> Null) (iget s ''price''))"
    and y: "y = zip (map fst (entries s)) (iget s ''price'')"
    and path: "path = os_path_join (FORECAST_DIR w) (''forecast_'' @ symbol @ ''.csv'')"
  shows "(n < 20 \<longrightarrow>
           forecast_one_symbol L w symbol df =
             Inr (None, say (say w NotEnoughData) (SkippingForecast symbol)))
    \<and> (20 \<le> n \<longrightarrow> arima L y ARIMA_ORDER FORECAST_STEPS = None \<longrightarrow>
           forecast_one_symbol L w symbol df = Inr (None, say w (ForecastFailed symbol)))
    \<and> (20 \<le> n \<longrightarrow> arima L y ARIMA_ORDER FORECAST_STEPS = Some fc \<longrightarrow> unwritable w path \<longrightarrow>
           forecast_one_symbol L w symbol df = Inr (None, say w (ForecastFailed symbol)))
    \<and> (20 \<le> n \<longrightarrow> arima L y ARIMA_ORDER FORECAST_STEPS = Some fc \<longrightarrow> \<not> unwritable w path \<longrightarrow>
          (\<exists>out w'. forecast_one_symbol L w symbol df = Inr (Some out, w')
             \<and> columns out = [''date'', ''symbol'', ''forecast'', ''ci_lower'', ''ci_upper'']
             \<and> length (rows out) = length fc
             \<and> get_col out ''date'' = map (\<lambda>e. Stamp (fst e)) fc
             \<and> written w' path = Some out
             \<and> log w' = log w @ [ForecastSaved path]
             \<and> (map fst fc = map (\<lambda>k. fst (last y) + (int k + 1) * one_day) [0 ..< FORECAST_STEPS]
                  \<longrightarrow> length (rows out) = 30
                    \<and> get_col out ''date'' =
                        map (\<lambda>k. Stamp (fst (last (entries s)) + (int k + 1) * one_day))
                            [0 ..< 30])))"
proof -
  have short: "forecast_one_symbol L w symbol df =
             Inr (None, say (say w NotEnoughData) (SkippingForecast symbol))" if "n < 20"
    using forecast_short [OF cols al] that unfolding n by simp
  have long: "forecast_one_symbol L w symbol df =
     (case arima L y ARIMA_ORDER FORECAST_STEPS of
        None \<Rightarrow> Inr (None, say w (ForecastFailed symbol))
      | Some fc \<Rightarrow>
          if unwritable w path then Inr (None, say w (ForecastFailed symbol))
          else Inr (Some \<lparr>columns = [''date'', ''symbol'', ''forecast'', ''ci_lower'', ''ci_upper''],
                          rows = map (forecast_row symbol) fc\<rparr>,
                    say (w\<lparr>written := (written w)(path \<mapsto>
                           \<lparr>columns = [''date'', ''symbol'', ''forecast'', ''ci_lower'', ''ci_upper''],
                            rows = map (forecast_row symbol) fc\<rparr>)\<rparr>) (ForecastSaved path)))"
    if "20 \<le> n"
    using that unfolding n by (intro forecast_long_cases [OF cols al _ y path])
  have failed: "forecast_one_symbol L w symbol df = Inr (None, say w (ForecastFailed symbol))"
    if "20 \<le> n" "arima L y ARIMA_ORDER FORECAST_STEPS = None"
    using long [OF that(1)] that(2) by simp
  have readonly: "forecast_one_symbol L w symbol df = Inr (None, say w (ForecastFailed symbol))"
    if "20 \<le> n" "arima L y ARIMA_ORDER FORECAST_STEPS = Some fc" "unwritable w path"
    using long [OF that(1)] that(2,3) by simp
  have ok: "\<exists>out w'. forecast_one_symbol L w symbol df = Inr (Some out, w')
             \<and> columns out = [''date'', ''symbol'', ''forecast'', ''ci_lower'', ''ci_upper'']
             \<and> length (rows out) = length fc
             \<and> get_col out ''date'' = map (\<lambda>e. Stamp (fst e)) fc
             \<and> written w' path = Some out
             \<and> log w' = log w @ [ForecastSaved path]
             \<and> (map fst fc = map (\<lambda>k. fst (last y) + (int k + 1) * one_day) [0 ..< FORECAST_STEPS]
                  \<longrightarrow> length (rows out) = 30
                    \<and> get_col out ''date'' =
                        map (\<lambda>k. Stamp (fst (last (entries s)) + (int k + 1) * one_day))
                            [0 ..< 30])"
    if big: "20 \<le> n" and fc: "arima L y ARIMA_ORDER FORECAST_STEPS = Some fc"
      and wr: "\<not> unwritable w path"
  proof -
    define out where
      "out = \<lparr>columns = [''date'', ''symbol'', ''forecast'', ''ci_lower'', ''ci_upper''],
              rows = map (forecast_row symbol) fc\<rparr>"
    define w' where "w' = say (w\<lparr>written := (written w)(path \<mapsto> out)\<rparr>) (ForecastSaved path)"
    have run: "forecast_one_symbol L w symbol df = Inr (Some out, w')"
      using long [OF big] fc wr by (simp add: out_def w'_def)
    have ly: "fst (last y) = fst (last (entries s))"
      unfolding y using big unfolding n by (rule last_zip_labels(2))
    have dates: "get_col out ''date'' = map (\<lambda>e. Stamp (fst e)) fc"
      unfolding out_def by (rule get_col_forecast_rows)
    have thirty: "length (rows out) = 30
        \<and> get_col out ''date'' =
            map (\<lambda>k. Stamp (fst (last (entries s)) + (int k + 1) * one_day)) [0 ..< 30]"
      if m: "map fst fc = map (\<lambda>k. fst (last y) + (int k + 1) * one_day) [0 ..< FORECAST_STEPS]"
    proof -
      from m have m': "map fst fc =
          map (\<lambda>k. fst (last (entries s)) + (int k + 1) * one_day) [0 ..< 30]"
        unfolding ly by (simp add: FORECAST_STEPS_def)
      from arg_cong [OF m', of length] have len: "length fc = 30" by simp
      from arg_cong [OF m', of "map Stamp"]
      have "get_col out ''date'' =
               map (\<lambda>k. Stamp (fst (last (entries s)) + (int k + 1) * one_day)) [0 ..< 30]"
        unfolding dates by (simp add: comp_def)
      then show ?thesis using len by (simp add: out_def)
    qed
    have "columns out = [''date'', ''symbol'', ''forecast'', ''ci_lower'', ''ci_upper'']"
      and "length (rows out) = length fc"
      and "written w' path = Some out"
      and "log w' = log w @ [ForecastSaved path]"
      by (simp_all add: out_def w'_def say_def)
    with run dates thirty show ?thesis by blast
  qed
  show ?thesis
    using short failed readonly ok by blast
qed

theorem forecast_rows_witness:
  "{''date'', ''price''} \<subseteq> set (columns (daily_frame 25 1))
   \<and> aligned_count sample_lib (daily_frame 25 1) = Some 25
   \<and> last (aligned_dates sample_lib (daily_frame 25 1)) = 24 * one_day
   \<and> map_option (\<lambda>ds. (length ds, hd ds, last ds))
        (result_column (forecast_one_symbol sample_lib (sample_world []) ''BTC'' (daily_frame 25 1))
           ''date'')
       = Some (30, Stamp (25 * one_day), Stamp (54 * one_day))
   \<and> aligned_count sample_lib (daily_frame 10 1) = Some 10
   \<and> returned_none (forecast_one_symbol sample_lib (sample_world []) ''BTC'' (daily_frame 10 1))"
proof -
  let ?w = "sample_world []"
  have c: "{''date'', ''price''} \<subseteq> set (columns (daily_frame k 1))" for k
    by (simp add: daily_frame_def)
  have a: "aligned_count sample_lib (daily_frame 25 1) = Some 25" by code_simp
  then obtain s where s: "align_series sample_lib (daily_frame 25 1) = Inr s"
    and n: "25 = length (filter (\<lambda>c. c \<noteq> Null) (iget s ''price''))"
    using aligned_countD by metis
  define y where "y = zip (map fst (entries s)) (iget s ''price'')"
  have l: "last (aligned_dates sample_lib (daily_frame 25 1)) = 24 * one_day" by code_simp
  have "entries s \<noteq> []" using n by (auto simp: iget_def)
  then have ls: "fst (last (entries s)) = 24 * one_day"
    using l by (simp add: aligned_dates_def s last_map)
  have big: "20 \<le> length (filter (\<lambda>c. c \<noteq> Null) (iget s ''price''))"
    using n by simp
  have yne: "y \<noteq> []" unfolding y_def using big by (rule last_zip_labels(1))
  have "\<exists>fc. arima sample_lib y ARIMA_ORDER FORECAST_STEPS = Some fc
      \<and> map fst fc = map (\<lambda>k. fst (last y) + (int k + 1) * one_day) [0 ..< FORECAST_STEPS]"
    by (cases "list_all (\<lambda>e. finite_value (snd e)) y")
      (insert yne, simp_all add: sample_lib_def naive_arima_def comp_def)
  then obtain fc where fc: "arima sample_lib y ARIMA_ORDER FORECAST_STEPS = Some fc"
    and m: "map fst fc = map (\<lambda>k. fst (last y) + (int k + 1) * one_day) [0 ..< FORECAST_STEPS]"
    by blast
  have wr: "\<not> unwritable ?w p" for p by (simp add: sample_world_def)
  have a10: "aligned_count sample_lib (daily_frame 10 1) = Some 10" by code_simp
  then obtain s10 where s10: "align_series sample_lib (daily_frame 10 1) = Inr s10"
    and n10: "10 = length (filter (\<lambda>c. c \<noteq> Null) (iget s10 ''price''))"
    using aligned_countD by metis
  from forecast_rows [OF c s n y_def refl, of ?w "''BTC''" fc] fc m wr
  obtain out w' where
    run: "forecast_one_symbol sample_lib ?w ''BTC'' (daily_frame 25 1) = Inr (Some out, w')"
    and A: "length (rows out) = 30"
    and B: "get_col out ''date'' =
               map (\<lambda>k. Stamp (fst (last (entries s)) + (int k + 1) * one_day)) [0 ..< 30]"
    by auto
  have lenB: "length (get_col out ''date'') = 30" using A by simp
  have hdB: "hd (get_col out ''date'') = Stamp (25 * one_day)"
    unfolding B ls by (simp add: hd_map upt_conv_Cons)
  have "last xs = xs ! 29" if "length xs = 30" for xs :: "cell list"
    using that by (cases xs rule: rev_cases) (auto simp: nth_append)
  from this [OF lenB]
  have "last (get_col out ''date'') = get_col out ''date'' ! 29" .
  also have "\<dots> = Stamp (54 * one_day)"
    unfolding B ls by simp
  finally have lastB: "last (get_col out ''date'') = Stamp (54 * one_day)" .
  from forecast_rows [OF c s10 n10 refl refl, of ?w "''BTC''"]
  have C: "returned_none (forecast_one_symbol sample_lib ?w ''BTC'' (daily_frame 10 1))"
    by (simp add: returned_none_def)
  show ?thesis
    using c a l a10 C lenB hdB lastB by (simp add: result_column_def run)
qed

text \<open>
  Twenty-five aligned observations, a fit that returns, and a forecast file that cannot
  be written: the exception of \<open>to_csv\<close> is caught, \<open>forecast_one_symbol\<close> reports the
  failure and returns \<open>None\<close>, and there is no forecast row although the symbol has
  more than 20 aligned observations.
\<close>

theorem forecast_rows_write_failure_counterexample:
  "aligned_count sample_lib (daily_frame 25 1) = Some 25
   \<and> unwritable readonly_world ''/app/data/forecasted/forecast_BTC.csv''
   \<and> returned_none (forecast_one_symbol sample_lib readonly_world ''BTC'' (daily_frame 25 1))
   \<and> printed (forecast_one_symbol sample_lib readonly_world ''BTC'' (daily_frame 25 1))
       = [ForecastFailed ''BTC'']
   \<and> written_columns
         (result_world (forecast_one_symbol sample_lib readonly_world ''BTC'' (daily_frame 25 1)))
         ''/app/data/forecasted/forecast_BTC.csv'' = None"
  by code_simp

section \<open>Failures of one file in the batch (C1)\<close>

text \<open>
  The failures that \<open>process_file\<close> handles itself end in the return of \<open>None\<close>, and
  the loop of \<open>main\<close> goes on with the next file.
\<close>

lemma process_file_unreadable:
  "raw w p = None \<Longrightarrow> process_file L w p = Inr (None, say w (CannotRead p))"
  by (simp add: process_file_def read_csv_def)

lemma process_file_missing:
  assumes "read_csv w p = Inr df0" and "\<not> empty_frame df0"
    and "\<not> {''date'', ''price''} \<subseteq> set (columns (validate_and_fix_columns df0 p))"
  shows "\<exists>w'. process_file L w p = Inr (None, w') \<and> written w' = written w"
  using assms unfolding process_file_def Let_def by auto

lemma process_all_skip:
  assumes "process_file L (say w (Processing f)) f = Inr (None, w1)"
  shows "process_all L w (f # fs) = process_all L (say w1 (SkipSave (basename f))) fs"
  using assms by (simp add: save_processed_def)


text \<open>
  C1. A raw file in which two surviving rows have the same timestamp is not among the
  failures handled: \<open>asfreq\<close> raises \<open>ValueError\<close>, nothing in \<open>process_file\<close> or
  \<open>main\<close> catches it, and the batch ends with the exception. The other file of the
  directory, which is processed and saved when it is the only one, is saved when
  \<open>glob\<close> lists it first and is never reached when \<open>glob\<close> lists it second; the
  exception leaves \<open>main\<close> in both orders.
\<close>

theorem duplicate_dates_abort_batch:
  "raw_files duplicate_world = [''data/raw/BTC.csv'', ''data/raw/ETH.csv'']
   \<and> raw_column duplicate_world ''data/raw/BTC.csv'' ''date'' = [midnight 0, midnight 0]
   \<and> raised (process_file sample_lib duplicate_world ''data/raw/BTC.csv'') = Some ValueError
   \<and> raised (main sample_lib duplicate_world) = Some ValueError
   \<and> written_columns (main sample_lib (duplicate_world\<lparr>raw_files := [''data/raw/ETH.csv'']\<rparr>))
         ''data/processed/ETH.csv''
       = Some [''date'', ''symbol'', ''price'', ''Daily_Change_%'', ''Weekly_Change_7d_%'',
               ''Monthly_Change_30d_%'']
   \<and> written_columns (main sample_lib duplicate_world) ''data/processed/ETH.csv'' = None
   \<and> raised (main sample_lib
         (duplicate_world\<lparr>raw_files := [''data/raw/ETH.csv'', ''data/raw/BTC.csv'']\<rparr>))
       = Some ValueError
   \<and> written_columns (main sample_lib
         (duplicate_world\<lparr>raw_files := [''data/raw/ETH.csv'', ''data/raw/BTC.csv'']\<rparr>))
         ''data/processed/ETH.csv''
       = Some [''date'', ''symbol'', ''price'', ''Daily_Change_%'', ''Weekly_Change_7d_%'',
               ''Monthly_Change_30d_%'']"
  by code_simp

section \<open>Forecast intervals (C7)\<close>

text \<open>
  C7, as amended. A frame that \<open>forecast_one_symbol\<close> returns holds the steps of a fit
  that returned. When the fit returns the steps \<open>fc\<close> and the forecast file can be
  written, the columns \<open>forecast\<close>, \<open>ci_lower\<close> and \<open>ci_upper\<close> of the frame returned
  are the mean, the lower bound and the upper bound of the steps, in that order and
  unchanged, so that \<open>ci_lower \<le> forecast \<le> ci_upper\<close> holds in every row exactly
  when the bounds that the fit returned enclose its mean at every step.
\<close>

theorem forecast_interval:
  assumes cols: "{''date'', ''price''} \<subseteq> set (columns df)"
    and al: "align_series L df = Inr s"
    and n: "n = length (filter (\<lambda>c. c \<noteq> Null) (iget s ''price''))"
    and y: "y = zip (map fst (entries s)) (iget s ''price'')"
    and path: "path = os_path_join (FORECAST_DIR w) (''forecast_'' @ symbol @ ''.csv'')"
  shows "(forecast_one_symbol L w symbol df = Inr (Some out, w') \<longrightarrow>
           20 \<le> n \<and> (\<exists>fc'. arima L y ARIMA_ORDER FORECAST_STEPS = Some fc'
                          \<and> rows out = map (forecast_row symbol) fc'))
    \<and> (20 \<le> n \<longrightarrow> arima L y ARIMA_ORDER FORECAST_STEPS = Some fc \<longrightarrow> \<not> unwritable w path \<longrightarrow>
          (\<exists>out w'. forecast_one_symbol L w symbol df = Inr (Some out, w')
             \<and> get_col out ''forecast'' = map (\<lambda>(d, m, lo, hi). m) fc
             \<and> get_col out ''ci_lower'' = map (\<lambda>(d, m, lo, hi). lo) fc
             \<and> get_col out ''ci_upper'' = map (\<lambda>(d, m, lo, hi). hi) fc
             \<and> ((\<forall>r \<in> set (rows out). fle (r ''ci_lower'') (r ''forecast'')
                                      \<and> fle (r ''forecast'') (r ''ci_upper''))
                 \<longleftrightarrow> (\<forall>(d, m, lo, hi) \<in> set fc. fle lo m \<and> fle m hi))))"
proof -
  have short: "forecast_one_symbol L w symbol df =
             Inr (None, say (say w NotEnoughData) (SkippingForecast symbol))" if "n < 20"
    using forecast_short [OF cols al] that unfolding n by simp
  have long: "forecast_one_symbol L w symbol df =
     (case arima L y ARIMA_ORDER FORECAST_STEPS of
        None \<Rightarrow> Inr (None, say w (ForecastFailed symbol))
      | Some fc \<Rightarrow>
          if unwritable w path then Inr (None, say w (ForecastFailed symbol))
          else Inr (Some \<lparr>columns = [''date'', ''symbol'', ''forecast'', ''ci_lower'', ''ci_upper''],
                          rows = map (forecast_row symbol) fc\<rparr>,
                    say (w\<lparr>written := (written w)(path \<mapsto>
                           \<lparr>columns = [''date'', ''symbol'', ''forecast'', ''ci_lower'', ''ci_upper''],
                            rows = map (forecast_row symbol) fc\<rparr>)\<rparr>) (ForecastSaved path)))"
    if "20 \<le> n"
    using that unfolding n by (intro forecast_long_cases [OF cols al _ y path])
  have origin: "20 \<le> n \<and> (\<exists>fc'. arima L y ARIMA_ORDER FORECAST_STEPS = Some fc'
                          \<and> rows out = map (forecast_row symbol) fc')"
    if run: "forecast_one_symbol L w symbol df = Inr (Some out, w')"
  proof -
    have big: "20 \<le> n" using short run by (cases "n < 20") auto
    from run long [OF big]
    have "\<exists>fc'. arima L y ARIMA_ORDER FORECAST_STEPS = Some fc'
                          \<and> rows out = map (forecast_row symbol) fc'"
      by (auto split: option.splits if_splits)
    with big show ?thesis by blast
  qed
  have kept: "\<exists>out w'. forecast_one_symbol L w symbol df = Inr (Some out, w')
             \<and> get_col out ''forecast'' = map (\<lambda>(d, m, lo, hi). m) fc
             \<and> get_col out ''ci_lower'' = map (\<lambda>(d, m, lo, hi). lo) fc
             \<and> get_col out ''ci_upper'' = map (\<lambda>(d, m, lo, hi). hi) fc
             \<and> ((\<forall>r \<in> set (rows out). fle (r ''ci_lower'') (r ''forecast'')
                                      \<and> fle (r ''forecast'') (r ''ci_upper''))
                 \<longleftrightarrow> (\<forall>(d, m, lo, hi) \<in> set fc. fle lo m \<and> fle m hi))"
    if big: "20 \<le> n" and fc: "arima L y ARIMA_ORDER FORECAST_STEPS = Some fc"
      and wr: "\<not> unwritable w path"
  proof -
    define out where
      "out = \<lparr>columns = [''date'', ''symbol'', ''forecast'', ''ci_lower'', ''ci_upper''],
              rows = map (forecast_row symbol) fc\<rparr>"
    define w' where "w' = say (w\<lparr>written := (written w)(path \<mapsto> out)\<rparr>) (ForecastSaved path)"
    have run: "forecast_one_symbol L w symbol df = Inr (Some out, w')"
      using long [OF big] fc wr by (simp add: out_def w'_def)
    have "(\<forall>r \<in> set (rows out). fle (r ''ci_lower'') (r ''forecast'')
                                      \<and> fle (r ''forecast'') (r ''ci_upper''))
                 \<longleftrightarrow> (\<forall>e \<in> set fc. case e of (d, m, lo, hi) \<Rightarrow> fle lo m \<and> fle m hi)"
      unfolding out_def by (simp add: forecast_row_interval)
    moreover have "get_col out ''forecast'' = map (\<lambda>(d, m, lo, hi). m) fc"
      and "get_col out ''ci_lower'' = map (\<lambda>(d, m, lo, hi). lo) fc"
      and "get_col out ''ci_upper'' = map (\<lambda>(d, m, lo, hi). hi) fc"
      unfolding out_def by (rule get_col_forecast_values)+
    ultimately show ?thesis using run by blast
  qed
  show ?thesis
    using origin kept by blast
qed

theorem forecast_interval_witness:
  "aligned_count sample_lib (daily_frame 25 1) = Some 25
   \<and> result_column (forecast_one_symbol sample_lib (sample_world []) ''BTC'' (daily_frame 25 1))
        ''ci_lower'' = Some (replicate 30 (Num 100))
   \<and> result_column (forecast_one_symbol sample_lib (sample_world []) ''BTC'' (daily_frame 25 1))
        ''forecast'' = Some (replicate 30 (Num 100))
   \<and> result_column (forecast_one_symbol sample_lib (sample_world []) ''BTC'' (daily_frame 25 1))
        ''ci_upper'' = Some (replicate 30 (Num 100))
   \<and> fle (Num 100) (Num 100)"
proof -
  let ?w = "sample_world []"
  let ?fc = "map (\<lambda>k. ((25 + int k) * one_day, Num 100, Num 100, Num 100)) [0 ..< 30]"
  have c: "{''date'', ''price''} \<subseteq> set (columns (daily_frame 25 1))"
    by (simp add: daily_frame_def)
  have a: "aligned_count sample_lib (daily_frame 25 1) = Some 25" by code_simp
  then obtain s where s: "align_series sample_lib (daily_frame 25 1) = Inr s"
    and n: "25 = length (filter (\<lambda>c. c \<noteq> Null) (iget s ''price''))"
    using aligned_countD by metis
  have "arima sample_lib (aligned_series sample_lib (daily_frame 25 1)) ARIMA_ORDER FORECAST_STEPS
          = Some ?fc"
    by code_simp
  then have fc: "arima sample_lib (zip (map fst (entries s)) (iget s ''price''))
      ARIMA_ORDER FORECAST_STEPS = Some ?fc"
    unfolding aligned_seriesD [OF s] .
  have wr: "\<not> unwritable ?w p" for p by (simp add: sample_world_def)
  have f: "fle (Num 100) (Num 100)" by code_simp
  have big: "(20::nat) \<le> 25" by simp
  note kept = forecast_interval [OF c s n refl refl, where w = "?w" and symbol = "''BTC''"
      and fc = "?fc", THEN conjunct2, rule_format, OF big fc wr]
  from kept obtain out w' where
    run: "forecast_one_symbol sample_lib ?w ''BTC'' (daily_frame 25 1) = Inr (Some out, w')"
    and A: "get_col out ''forecast'' = map (\<lambda>(d, m, lo, hi). m) ?fc"
    and B: "get_col out ''ci_lower'' = map (\<lambda>(d, m, lo, hi). lo) ?fc"
    and C: "get_col out ''ci_upper'' = map (\<lambda>(d, m, lo, hi). hi) ?fc"
    by blast
  have "map (\<lambda>k. Num 100) [0 ..< 30] = replicate 30 (Num 100)"
    by (simp add: map_replicate_const)
  then show ?thesis
    using a f by (simp add: result_column_def run A B C comp_def)
qed

text \<open>
  Twenty-five days of prices, one of them \<open>inf\<close>, and a fit that returns with NaN for
  the mean and the bounds of every step: the frame returned and written has 30 rows, and
  in none of them \<open>ci_lower \<le> forecast\<close> holds.
\<close>

theorem forecast_interval_counterexample:
  "aligned_count sample_lib infinite_price_frame = Some 25
   \<and> printed (forecast_one_symbol sample_lib (sample_world []) ''BTC'' infinite_price_frame)
       = [ForecastSaved ''/app/data/forecasted/forecast_BTC.csv'']
   \<and> result_column (forecast_one_symbol sample_lib (sample_world []) ''BTC'' infinite_price_frame)
        ''ci_lower'' = Some (replicate 30 Null)
   \<and> result_column (forecast_one_symbol sample_lib (sample_world []) ''BTC'' infinite_price_frame)
        ''forecast'' = Some (replicate 30 Null)
   \<and> result_column (forecast_one_symbol sample_lib (sample_world []) ''BTC'' infinite_price_frame)
        ''ci_upper'' = Some (replicate 30 Null)
   \<and> \<not> fle Null Null"
  by code_simp

end
